theory Spec2Isabelle
  imports Complex_Main "HOL-Library.Sublist"
begin

section \<open>Python containers used by the acquisition engine\<close>

text \<open>
  Samples are Python floats; the model reads them as real numbers, so rounding, infinities
  and NaN are outside it. Everything below that concerns lengths, order, branching and
  counters does not depend on that reading.
\<close>

datatype py_error = ValueError | IndexError | ZeroDivisionError | LinAlgError | QueueFull | QueueEmpty

subsection \<open>\<open>collections.deque(maxlen=n)\<close>\<close>

text \<open>
  \<open>append\<close> adds on the right and, when the deque is then longer than \<open>maxlen\<close>, pops
  on the left. \<open>extend\<close> appends the elements of its argument one after the other.
\<close>

definition deque_append :: "nat \<Rightarrow> 'a list \<Rightarrow> 'a \<Rightarrow> 'a list" where
  "deque_append maxlen d x =
     (let d' = d @ [x] in if maxlen < length d' then tl d' else d')"

fun deque_extend :: "nat \<Rightarrow> 'a list \<Rightarrow> 'a list \<Rightarrow> 'a list" where
  "deque_extend maxlen d [] = d"
| "deque_extend maxlen d (x # xs) = deque_extend maxlen (deque_append maxlen d x) xs"

subsection \<open>\<open>queue.Queue(maxsize=n)\<close>, seen by one thread\<close>

definition put_nowait :: "nat \<Rightarrow> 'a list \<Rightarrow> 'a \<Rightarrow> py_error + 'a list" where
  "put_nowait maxsize q x =
     (if 0 < maxsize \<and> maxsize \<le> length q then Inl QueueFull else Inr (q @ [x]))"

definition get_nowait :: "'a list \<Rightarrow> py_error + ('a \<times> 'a list)" where
  "get_nowait q = (case q of [] \<Rightarrow> Inl QueueEmpty | x # q' \<Rightarrow> Inr (x, q'))"

text \<open>
  The hand-over at the end of a filtering pass (\<open>_process_raw_data\<close>, the nested
  \<open>try\<close> around \<open>put_nowait\<close>): put the chunk; on \<open>queue.Full\<close> take the oldest
  entry out and put again; \<open>queue.Empty\<close> from the take is passed over, and a second
  \<open>queue.Full\<close> leaves the inner \<open>try\<close> as an exception.
\<close>

definition output_queue_put :: "nat \<Rightarrow> 'a list \<Rightarrow> 'a \<Rightarrow> py_error + 'a list" where
  "output_queue_put maxsize q x =
     (case put_nowait maxsize q x of
        Inr q' \<Rightarrow> Inr q'
      | Inl _ \<Rightarrow>
          (case get_nowait q of
             Inl _ \<Rightarrow> Inr q
           | Inr (_, q') \<Rightarrow> put_nowait maxsize q' x))"

text \<open>A producer that hands over the chunks \<open>xs\<close> one after the other, nobody consuming.\<close>

fun push_all :: "nat \<Rightarrow> 'a list \<Rightarrow> 'a list \<Rightarrow> py_error + 'a list" where
  "push_all maxsize q [] = Inr q"
| "push_all maxsize q (x # xs) =
     (case output_queue_put maxsize q x of
        Inl e \<Rightarrow> Inl e
      | Inr q' \<Rightarrow> push_all maxsize q' xs)"

definition OUTPUT_QUEUE_MAXSIZE :: nat where
  "OUTPUT_QUEUE_MAXSIZE = 1000"

subsection \<open>Slices and strings\<close>

text \<open>
  \<open>xs[start::step]\<close> for a positive step: the elements at \<open>start\<close>, \<open>start + step\<close>,
  and so on. (Python rejects a zero step; the caller below never reaches one, its loop
  over \<open>range(NUM_SENSORS)\<close> being empty then.)
\<close>

definition slice_from_step :: "nat \<Rightarrow> nat \<Rightarrow> 'a list \<Rightarrow> 'a list" where
  "slice_from_step start step xs =
     map (\<lambda>i. xs ! i) (filter (\<lambda>i. start \<le> i \<and> (i - start) mod step = 0) [0..<length xs])"

text \<open>\<open>needle in text\<close> on strings is the contiguous-sublist test.\<close>

definition str_contains :: "string \<Rightarrow> string \<Rightarrow> bool" where
  "str_contains needle text = sublist needle text"

text \<open>
  \<open>str.strip()\<close>: whitespace is removed at both ends. The characters of the model are
  the code points below 256; among them Python counts these as whitespace.
\<close>

definition py_isspace :: "char \<Rightarrow> bool" where
  "py_isspace c = (of_char c \<in> {9, 10, 11, 12, 13, 28, 29, 30, 31, 32, 133, 160 :: nat})"

definition strip :: "string \<Rightarrow> string" where
  "strip s = rev (dropWhile py_isspace (rev (dropWhile py_isspace s)))"

section \<open>The filtering library\<close>

text \<open>
  \<open>scipy.signal\<close> is not part of the repository. Its coefficient designers
  (\<open>butter\<close>, \<open>iirnotch\<close>) are taken as parameters, since their values are numerical;
  what the handler relies on is stated in \<open>sigproc_ok\<close> below. \<open>filtfilt\<close> is written
  out after the library's algorithm, because the shape of its result and its length check
  are what the claims about the pipeline turn on.
\<close>

datatype btype = Lowpass | Highpass | Bandpass

record sigproc =
  butter :: "nat \<Rightarrow> real list \<Rightarrow> btype \<Rightarrow> py_error + (real list \<times> real list)"
  iirnotch :: "real \<Rightarrow> real \<Rightarrow> py_error + (real list \<times> real list)"

text \<open>The number of coefficients \<open>butter\<close> returns for an order and a band type.\<close>

fun butter_taps :: "nat \<Rightarrow> btype \<Rightarrow> nat" where
  "butter_taps n Bandpass = 2 * n + 1"
| "butter_taps n _ = n + 1"

text \<open>
  A usable coefficient pair: both vectors non-empty and one of them with two coefficients
  at least (the library builds the companion matrix of \<open>a\<close> padded to the longer length,
  and refuses fewer), \<open>a[0]\<close> not zero (the library divides by it) and the sum of \<open>a\<close>
  not zero (the linear system for the initial conditions is singular otherwise).
\<close>

definition coeffs_ok :: "real list \<Rightarrow> real list \<Rightarrow> bool" where
  "coeffs_ok b a =
     (b \<noteq> [] \<and> a \<noteq> [] \<and> 2 \<le> max (length a) (length b) \<and> hd a \<noteq> 0 \<and> sum_list a \<noteq> 0)"

text \<open>
  What the handler relies on: for a positive order and critical frequencies strictly
  between 0 and 1 the designers return a usable pair with the documented number of
  coefficients (three for the notch).
\<close>

definition sigproc_ok :: "sigproc \<Rightarrow> bool" where
  "sigproc_ok sp =
     ((\<forall>n Wn bt. 0 < n \<and> (\<forall>w \<in> set Wn. 0 < w \<and> w < 1) \<longrightarrow>
          (\<exists>b a. butter sp n Wn bt = Inr (b, a) \<and> length b = butter_taps n bt
              \<and> length a = butter_taps n bt \<and> coeffs_ok b a)) \<and>
      (\<forall>w0 Q. 0 < w0 \<and> w0 < 1 \<longrightarrow>
          (\<exists>b a. iirnotch sp w0 Q = Inr (b, a) \<and> length b = 3 \<and> length a = 3
              \<and> coeffs_ok b a)))"

subsection \<open>\<open>filtfilt(b, a, x)\<close> with its defaults: odd padding of \<open>3 * ntaps\<close> samples\<close>

text \<open>
  \<open>odd_ext(x, n)\<close>: \<open>x\<close> extended on both sides by \<open>n\<close> samples mirrored through
  the end points, \<open>2 * x[0] - x[n:0:-1]\<close> on the left and \<open>2 * x[-1] - x[-2:-(n+2):-1]\<close>
  on the right.
\<close>

definition odd_ext :: "real list \<Rightarrow> nat \<Rightarrow> real list" where
  "odd_ext x n =
     (let left_end = hd x;
          left_ext = rev (take n (tl x));
          right_end = last x;
          right_ext = take n (tl (rev x))
      in map (\<lambda>v. 2 * left_end - v) left_ext @ x @ map (\<lambda>v. 2 * right_end - v) right_ext)"

text \<open>Both vectors divided by \<open>a[0]\<close> and padded with zeros to the same length.\<close>

definition normalize_ba :: "real list \<Rightarrow> real list \<Rightarrow> real list \<times> real list" where
  "normalize_ba b a =
     (let n = max (length a) (length b);
          pad = (\<lambda>v. map (\<lambda>c. c / hd a) v @ replicate (n - length v) 0)
      in (pad b, pad a))"

text \<open>
  One sample through the transposed direct form II: the output, and the next delay line.
\<close>

definition lfilter_step :: "real list \<Rightarrow> real list \<Rightarrow> real list \<Rightarrow> real \<Rightarrow> real \<times> real list" where
  "lfilter_step b a z x =
     (let y = hd b * x + (case z of [] \<Rightarrow> 0 | z0 # _ \<Rightarrow> z0);
          z' = map (\<lambda>(bi, ai, zi). bi * x - ai * y + zi) (zip (tl b) (zip (tl a) (tl z @ [0])))
      in (y, z'))"

fun lfilter_run :: "real list \<Rightarrow> real list \<Rightarrow> real list \<Rightarrow> real list \<Rightarrow> real list" where
  "lfilter_run b a z [] = []"
| "lfilter_run b a z (x # xs) =
     (case lfilter_step b a z x of (y, z') \<Rightarrow> y # lfilter_run b a z' xs)"

definition lfilter :: "real list \<Rightarrow> real list \<Rightarrow> real list \<Rightarrow> real list \<Rightarrow> real list" where
  "lfilter b a x zi = (case normalize_ba b a of (b', a') \<Rightarrow> lfilter_run b' a' zi x)"

text \<open>
  \<open>lfilter_zi(b, a)\<close>: the delay line of the step response's steady state. Leading
  zeros of \<open>a\<close> are dropped while more than one coefficient is left; an empty \<open>a\<close> is
  refused; the vectors are divided by \<open>a[0]\<close> and padded to the same length \<open>n\<close>; the
  companion matrix \<open>A\<close> of \<open>a\<close> needs \<open>n\<close> to be 2 at least; the result is the
  solution of \<open>(I - A\<^sup>T) zi = B\<close>, which exists when the sum of \<open>a\<close> is not zero, in its
  explicit form: \<open>zi[0] = sum(B) / sum(a)\<close> and \<open>zi[k] = (1 + a[1] + ... + a[k]) * zi[0] -
  (B[0] + ... + B[k-1])\<close> with \<open>B[j] = b[j+1] - a[j+1] * b[0]\<close>.

  When every coefficient of \<open>a\<close> is zero the library divides by zero and goes on with
  infinities and NaN, for which the model has no reading; it gives an error there.
\<close>

fun drop_leading_zeros :: "real list \<Rightarrow> real list" where
  "drop_leading_zeros (x # y # ys) =
     (if x = 0 then drop_leading_zeros (y # ys) else x # y # ys)"
| "drop_leading_zeros xs = xs"

definition lfilter_zi :: "real list \<Rightarrow> real list \<Rightarrow> py_error + real list" where
  "lfilter_zi b a =
     (let a1 = drop_leading_zeros a in
      if a1 = [] then Inl ValueError
      else if hd a1 = 0 then Inl ValueError
      else
        (case normalize_ba b a1 of (b', a') \<Rightarrow>
           if length a' < 2 then Inl ValueError
           else if sum_list a' = 0 then Inl LinAlgError
           else
             let B = map (\<lambda>(bj, aj). bj - aj * hd b') (zip (tl b') (tl a'));
                 zi0 = sum_list B / sum_list a'
             in Inr (map (\<lambda>k. sum_list (take (Suc k) a') * zi0 - sum_list (take k B))
                        [0..<length B])))"

text \<open>
  \<open>filtfilt\<close>: the input has to be longer than the padding, \<open>3 * max(len(a), len(b))\<close>
  samples; then the initial conditions are computed; then the extended input is filtered
  forwards and backwards and the padding cut off. \<open>lfilter\<close> refuses \<open>a[0] = 0\<close>; it is
  taken to refuse an empty \<open>b\<close> as well.
\<close>

definition filtfilt :: "real list \<Rightarrow> real list \<Rightarrow> real list \<Rightarrow> py_error + real list" where
  "filtfilt b a x =
     (let ntaps = max (length a) (length b);
          edge = 3 * ntaps
      in if length x \<le> edge then Inl ValueError
         else
           (case lfilter_zi b a of
              Inl e \<Rightarrow> Inl e
            | Inr zi \<Rightarrow>
                if hd a = 0 \<or> b = [] then Inl ValueError
                else
                  let ext = odd_ext x edge;
                      y1 = lfilter b a ext (map (\<lambda>z. z * hd ext) zi);
                      y2 = lfilter b a (rev y1) (map (\<lambda>z. z * last y1) zi);
                      y = rev y2
                  in Inr (take (length y - 2 * edge) (drop edge y))))"

section \<open>\<open>delsys_handler.py\<close>: class \<open>DelsysDataHandler\<close>\<close>

record 'a deque =
  maxlen :: nat
  items :: "'a list"

record chunk =
  channel :: nat
  muscle_label :: string
  samples :: "real list"

text \<open>
  The attributes of the handler that its data path reads or writes. The sockets, the
  ports and the thread list are left out.
\<close>

record delsys_handler =
  NUM_SENSORS :: nat
  envelope :: bool
  SAMPLING_RATE :: real
  muscle_labels :: "string list"
  output_queue :: "chunk list"
  ACCUMULATION_SIZE :: nat
  emg_processing_buffers :: "real deque list"
  streaming :: bool
  rate_adjusted_bytes :: nat
  hp_b :: "real list"
  hp_a :: "real list"
  notch_b :: "real list"
  notch_a :: "real list"
  bp_b :: "real list"
  bp_a :: "real list"
  lp_b :: "real list"
  lp_a :: "real list"

definition default_muscle_labels :: "string list" where
  "default_muscle_labels =
     [''L-TIBI'', ''L-GAST'', ''L-RECT-DIST'', ''L-RECT-PROX'', ''L-VAST-LATE'',
      ''R-TIBI'', ''R-GAST'', ''R-RECT-DIST'', ''R-RECT-PROX'', ''R-VAST-LATE'',
      ''L-SEMI'', ''R-SEMI'', ''NC'', ''NC'', ''L-BICEP-FEMO'', ''R-BICEP-FEMO'']"

subsection \<open>\<open>_design_filters\<close>\<close>

text \<open>
  The four designs are assigned one after the other, so an exception in a later design
  leaves the earlier coefficients assigned. \<open>0.5 * fs\<close> is a divisor four times; a zero
  rate raises at the first division.
\<close>

definition design_filters :: "sigproc \<Rightarrow> delsys_handler \<Rightarrow> py_error option \<times> delsys_handler" where
  "design_filters sp h =
     (let fs = SAMPLING_RATE h in
      if 0.5 * fs = 0 then (Some ZeroDivisionError, h)
      else
        (case butter sp 2 [0.5 / (0.5 * fs)] Highpass of
           Inl e \<Rightarrow> (Some e, h)
         | Inr (b1, a1) \<Rightarrow>
             let h1 = h\<lparr>hp_b := b1, hp_a := a1\<rparr> in
             (case iirnotch sp (60 / (0.5 * fs)) 30 of
                Inl e \<Rightarrow> (Some e, h1)
              | Inr (b2, a2) \<Rightarrow>
                  let h2 = h1\<lparr>notch_b := b2, notch_a := a2\<rparr> in
                  (case butter sp 4 [20 / (0.5 * fs), 450 / (0.5 * fs)] Bandpass of
                     Inl e \<Rightarrow> (Some e, h2)
                   | Inr (b3, a3) \<Rightarrow>
                       let h3 = h2\<lparr>bp_b := b3, bp_a := a3\<rparr> in
                       (case butter sp 2 [10 / (0.5 * fs)] Lowpass of
                          Inl e \<Rightarrow> (Some e, h3)
                        | Inr (b4, a4) \<Rightarrow> (None, h3\<lparr>lp_b := b4, lp_a := a4\<rparr>))))))"

subsection \<open>\<open>__init__\<close>\<close>

text \<open>
  The accumulation size is the literal 75 in the constructor. \<open>handler_init_with\<close> is
  the constructor's body with that literal as its first argument, so that configurations
  with another window can be written down; \<open>handler_init\<close> is the constructor.
\<close>

definition handler_init_with ::
  "nat \<Rightarrow> sigproc \<Rightarrow> nat \<Rightarrow> real \<Rightarrow> bool \<Rightarrow> py_error + delsys_handler" where
  "handler_init_with acc sp num_sensors sampling_rate env =
     (let h = \<lparr>NUM_SENSORS = num_sensors, envelope = env, SAMPLING_RATE = sampling_rate,
               muscle_labels = default_muscle_labels, output_queue = [],
               ACCUMULATION_SIZE = acc,
               emg_processing_buffers = replicate num_sensors \<lparr>maxlen = acc, items = []\<rparr>,
               streaming = False, rate_adjusted_bytes = 1728,
               hp_b = [], hp_a = [], notch_b = [], notch_a = [],
               bp_b = [], bp_a = [], lp_b = [], lp_a = []\<rparr>
      in case design_filters sp h of
           (Some e, _) \<Rightarrow> Inl e
         | (None, h') \<Rightarrow> Inr h')"

definition handler_init :: "sigproc \<Rightarrow> nat \<Rightarrow> real \<Rightarrow> bool \<Rightarrow> py_error + delsys_handler" where
  "handler_init = handler_init_with 75"

subsection \<open>\<open>process_emg_channel\<close>\<close>

definition stage_highpass :: "delsys_handler \<Rightarrow> real list \<Rightarrow> py_error + real list" where
  "stage_highpass h x = filtfilt (hp_b h) (hp_a h) x"

definition stage_notch :: "delsys_handler \<Rightarrow> real list \<Rightarrow> py_error + real list" where
  "stage_notch h x = filtfilt (notch_b h) (notch_a h) x"

definition stage_bandpass :: "delsys_handler \<Rightarrow> real list \<Rightarrow> py_error + real list" where
  "stage_bandpass h x = filtfilt (bp_b h) (bp_a h) x"

definition stage_rectify :: "real list \<Rightarrow> real list" where
  "stage_rectify x = map abs x"

definition stage_envelope :: "delsys_handler \<Rightarrow> real list \<Rightarrow> py_error + real list" where
  "stage_envelope h x = (if envelope h then filtfilt (lp_b h) (lp_a h) x else Inr x)"

definition process_emg_channel :: "delsys_handler \<Rightarrow> real list \<Rightarrow> py_error + real list" where
  "process_emg_channel h data =
     (case stage_highpass h data of
        Inl e \<Rightarrow> Inl e
      | Inr y1 \<Rightarrow>
          (case stage_notch h y1 of
             Inl e \<Rightarrow> Inl e
           | Inr y2 \<Rightarrow>
               (case stage_bandpass h y2 of
                  Inl e \<Rightarrow> Inl e
                | Inr y3 \<Rightarrow> stage_envelope h (stage_rectify y3))))"

subsection \<open>\<open>configure_system\<close>\<close>

text \<open>
  What the command socket does is an input: whether the two commands could be sent, and
  the decoded reply to \<open>RATE?\<close> (\<open>None\<close> when \<open>recv\<close> or \<open>decode\<close> raises).
\<close>

record comm_outcome =
  rate_command_sent :: bool
  rate_query_sent :: bool
  rate_reply :: "string option"

definition configure_system ::
  "sigproc \<Rightarrow> comm_outcome \<Rightarrow> delsys_handler \<Rightarrow> bool \<times> delsys_handler" where
  "configure_system sp io h =
     (if \<not> rate_command_sent io then (False, h)
      else if \<not> rate_query_sent io then (False, h)
      else
        (case rate_reply io of
           None \<Rightarrow> (False, h)
         | Some received \<Rightarrow>
             let response = strip received;
                 h1 = (if str_contains ''1925'' response
                       then h\<lparr>rate_adjusted_bytes := 1664\<rparr>
                       else h\<lparr>rate_adjusted_bytes := 1728\<rparr>);
                 actual_rate = (if str_contains ''1925'' response
                                then 1925.926 else (2000 :: real))
             in if actual_rate \<noteq> SAMPLING_RATE h1 then
                  (case design_filters sp (h1\<lparr>SAMPLING_RATE := actual_rate\<rparr>) of
                     (Some e, h2) \<Rightarrow> (False, h2)
                   | (None, h2) \<Rightarrow> (True, h2))
                else (True, h1)))"

subsection \<open>\<open>_process_raw_data\<close>\<close>

text \<open>
  The body of the loop for one channel. Besides the handler it returns the exception that
  ended it, if any, and the arrays it handed to \<open>process_emg_channel\<close>, each with its
  channel: the filtering passes.
\<close>

type_synonym filter_pass = "nat \<times> real list"

definition process_channel ::
  "delsys_handler \<Rightarrow> real list \<Rightarrow> nat \<Rightarrow> py_error option \<times> delsys_handler \<times> filter_pass list" where
  "process_channel h raw c =
     (if length (emg_processing_buffers h) \<le> c then (Some IndexError, h, [])
      else
        let channel_data = slice_from_step c (NUM_SENSORS h) raw;
            buf = emg_processing_buffers h ! c;
            buf' = buf\<lparr>items := deque_extend (maxlen buf) (items buf) channel_data\<rparr>;
            h1 = h\<lparr>emg_processing_buffers := (emg_processing_buffers h)[c := buf']\<rparr>
        in if ACCUMULATION_SIZE h \<le> length (items buf') then
             let accumulated_data = items buf' in
             (case process_emg_channel h1 accumulated_data of
                Inl e \<Rightarrow> (Some e, h1, [(c, accumulated_data)])
              | Inr processed \<Rightarrow>
                  if length (muscle_labels h1) \<le> c
                  then (Some IndexError, h1, [(c, accumulated_data)])
                  else
                    let output_data = \<lparr>channel = c, muscle_label = muscle_labels h1 ! c,
                                       samples = processed\<rparr>
                    in (case output_queue_put OUTPUT_QUEUE_MAXSIZE (output_queue h1) output_data of
                          Inl e \<Rightarrow> (Some e, h1, [(c, accumulated_data)])
                        | Inr q \<Rightarrow>
                            (None,
                             h1\<lparr>output_queue := q,
                                emg_processing_buffers :=
                                  (emg_processing_buffers h1)[c := buf'\<lparr>items := []\<rparr>]\<rparr>,
                             [(c, accumulated_data)])))
           else (None, h1, []))"

text \<open>
  The loop over the channels. An exception ends it; the \<open>except\<close> clause around the
  loop prints and returns, so what was changed up to there stays changed.
\<close>

fun channel_loop ::
  "delsys_handler \<Rightarrow> real list \<Rightarrow> nat list \<Rightarrow> delsys_handler \<times> filter_pass list" where
  "channel_loop h raw [] = (h, [])"
| "channel_loop h raw (c # cs) =
     (case process_channel h raw c of
        (Some e, h', ps) \<Rightarrow> (h', ps)
      | (None, h', ps) \<Rightarrow>
          (case channel_loop h' raw cs of (h'', ps') \<Rightarrow> (h'', ps @ ps')))"

definition process_raw_data ::
  "delsys_handler \<Rightarrow> real list \<Rightarrow> delsys_handler \<times> filter_pass list" where
  "process_raw_data h raw = channel_loop h raw [0..<NUM_SENSORS h]"

text \<open>
  One round of \<open>emg_data_thread\<close> with a received block of \<open>4 * length frame\<close> bytes, read
  as that many floats: it is processed when it has the negotiated size and dropped
  otherwise.
\<close>

definition emg_data_thread_step ::
  "delsys_handler \<Rightarrow> real list \<Rightarrow> delsys_handler \<times> filter_pass list" where
  "emg_data_thread_step h frame =
     (if 4 * length frame = rate_adjusted_bytes h then process_raw_data h frame else (h, []))"

fun emg_data_thread ::
  "delsys_handler \<Rightarrow> real list list \<Rightarrow> delsys_handler \<times> filter_pass list" where
  "emg_data_thread h [] = (h, [])"
| "emg_data_thread h (frame # frames) =
     (case emg_data_thread_step h frame of
        (h', ps) \<Rightarrow> (case emg_data_thread h' frames of (h'', ps') \<Rightarrow> (h'', ps @ ps')))"

section \<open>\<open>app.py\<close>: the recording session\<close>

text \<open>
  The module's configuration constants. The functions below take them as a record, so
  that a session with another number of channels can be written down; \<open>app_config\<close>
  holds the values of the module.
\<close>

record config =
  app_NUM_SENSORS :: nat
  app_SAMPLING_RATE :: real

definition app_config :: config where
  "app_config = \<lparr>app_NUM_SENSORS = 16, app_SAMPLING_RATE = 2000\<rparr>"

text \<open>
  The module's global state. The session date is kept as a number; the live-preview
  buffers, which recording does not read, are left out.
\<close>

record app_state =
  handler :: "delsys_handler option"
  recording_data_buffer :: "real list list"
  is_recording :: bool
  start_time :: "real option"
  recording_session_start_time :: "nat option"
  trial_counter :: nat

definition generate_timestamps :: "config \<Rightarrow> app_state \<Rightarrow> nat \<Rightarrow> real list" where
  "generate_timestamps cfg st num_samples =
     (case start_time st of
        None \<Rightarrow> replicate num_samples 0
      | Some t \<Rightarrow> map (\<lambda>i. t + real i / app_SAMPLING_RATE cfg) [0..<num_samples])"

subsection \<open>\<open>recording_worker\<close>\<close>

text \<open>
  One round of the worker's loop with a chunk taken from the queue at wall-clock time
  \<open>now\<close>; the second component is the worker's local sample count. An exception ends
  the worker (\<open>Inl\<close>).
\<close>

definition recording_worker_step ::
  "real \<Rightarrow> chunk \<Rightarrow> app_state \<times> nat \<Rightarrow> py_error + (app_state \<times> nat)" where
  "recording_worker_step now ch sn =
     (case sn of (st, local_sample_count) \<Rightarrow>
        if is_recording st then
          (if length (recording_data_buffer st) \<le> channel ch + 1 then Inl IndexError
           else
             let row = recording_data_buffer st ! (channel ch + 1);
                 st1 = st\<lparr>recording_data_buffer :=
                           (recording_data_buffer st)[channel ch + 1 := row @ samples ch]\<rparr>;
                 n = local_sample_count + length (samples ch)
             in if start_time st1 = None \<and> n = length (samples ch)
                then Inr (st1\<lparr>start_time := Some now\<rparr>, n)
                else Inr (st1, n))
        else Inr (st, local_sample_count))"

subsection \<open>\<open>stop_delsys_recording\<close>\<close>

datatype stop_message =
    No_recording_in_progress
  | No_data_captured
  | No_data_captured_after_trimming
  | Error_saving_binary_file
  | Recording_saved_successfully nat
  | Error_stopping_recording

text \<open>
  What a stop leaves outside the program state: the returned pair, the matrix written to
  the binary file, the sidecar (sampling rate and trial number of its fields) and the
  warnings printed.
\<close>

record sidecar =
  fs :: real
  total_analog_in_ch :: nat
  trial_number :: nat

record stop_outcome =
  success :: bool
  message :: stop_message
  bin_file :: "real list list option"
  meta_file :: "sidecar option"
  padded_channels :: "nat list"
  metadata_warning :: bool

text \<open>What the file system does is an input: whether each of the two writes succeeds.\<close>

record io_outcome =
  bin_write_ok :: bool
  meta_write_ok :: bool
  clock :: nat

definition no_output :: "bool \<Rightarrow> stop_message \<Rightarrow> stop_outcome" where
  "no_output ok msg =
     \<lparr>success = ok, message = msg, bin_file = None, meta_file = None,
      padded_channels = [], metadata_warning = False\<rparr>"

text \<open>The loop body that brings one row to \<open>min_samples\<close> entries.\<close>

definition align_row :: "nat \<Rightarrow> real list \<Rightarrow> real list" where
  "align_row min_samples buffer_data =
     (if min_samples < length buffer_data then take min_samples buffer_data
      else if length buffer_data < min_samples
           then buffer_data @ replicate (min_samples - length buffer_data) 0
      else buffer_data)"

definition empty_buffers :: "config \<Rightarrow> real list list" where
  "empty_buffers cfg = replicate (app_NUM_SENSORS cfg + 1) []"

text \<open>The lengths of the channel rows, rows 1 to \<open>NUM_SENSORS\<close> of the buffer.\<close>

definition sample_counts :: "config \<Rightarrow> real list list \<Rightarrow> nat list" where
  "sample_counts cfg buffers = map (\<lambda>i. length (buffers ! i)) [1..<app_NUM_SENSORS cfg + 1]"

text \<open>
  A session that a stop can finalise: recording is on and the buffer has its
  \<open>NUM_SENSORS + 1\<close> rows, as the module creates and resets it.
\<close>

definition session_ready :: "config \<Rightarrow> app_state \<Rightarrow> bool" where
  "session_ready cfg st =
     (is_recording st \<and> length (recording_data_buffer st) = app_NUM_SENSORS cfg + 1)"

definition stop_delsys_recording ::
  "config \<Rightarrow> io_outcome \<Rightarrow> app_state \<Rightarrow> app_state \<times> stop_outcome" where
  "stop_delsys_recording cfg io st =
     (if \<not> is_recording st then (st, no_output False No_recording_in_progress)
      else
        let N = app_NUM_SENSORS cfg;
            st1 = st\<lparr>is_recording := False, handler := None\<rparr>;
            cleared = st1\<lparr>recording_data_buffer := empty_buffers cfg, start_time := None\<rparr>
        in if length (recording_data_buffer st1) < N + 1
           then (cleared, no_output False Error_stopping_recording)
           else
             let counts = sample_counts cfg (recording_data_buffer st1)
             in if counts = [] \<or> list_all (\<lambda>count. count = 0) counts
                then (cleared, no_output False No_data_captured)
                else
                  let min_samples = min_list counts
                  in if min_samples = 0
                     then (cleared, no_output False No_data_captured_after_trimming)
                     else
                       let timestamps = generate_timestamps cfg st1 min_samples;
                           buffers = (recording_data_buffer st1)[0 := timestamps];
                           final_data_arrays = map (align_row min_samples) (take (N + 1) buffers);
                           padded = filter (\<lambda>i. length (buffers ! i) < min_samples) [0..<N + 1];
                           st2 = cleared\<lparr>recording_session_start_time :=
                                   (case recording_session_start_time cleared of
                                      None \<Rightarrow> Some (clock io)
                                    | Some d \<Rightarrow> Some d)\<rparr>
                       in if \<not> bin_write_ok io
                          then (st2,
                                \<lparr>success = False, message = Error_saving_binary_file,
                                 bin_file = None, meta_file = None,
                                 padded_channels = padded, metadata_warning = False\<rparr>)
                          else
                            (st2\<lparr>trial_counter := trial_counter st2 + 1\<rparr>,
                             \<lparr>success = True,
                              message = Recording_saved_successfully min_samples,
                              bin_file = Some final_data_arrays,
                              meta_file =
                                (if meta_write_ok io
                                 then Some \<lparr>fs = app_SAMPLING_RATE cfg, total_analog_in_ch = N,
                                            trial_number = trial_counter st2\<rparr>
                                 else None),
                              padded_channels = padded,
                              metadata_warning = (\<not> meta_write_ok io)\<rparr>))"

section \<open>Conditions on a handler\<close>

text \<open>
  The number of samples \<open>filtfilt\<close> pads with on either side for a coefficient pair; an
  input has to be longer. \<open>filters_ok\<close> says that the four pairs of the handler are
  usable, \<open>pipeline_padlen\<close> is the largest of their pad lengths.
\<close>

definition padlen :: "real list \<Rightarrow> real list \<Rightarrow> nat" where
  "padlen b a = 3 * max (length a) (length b)"

definition filters_ok :: "delsys_handler \<Rightarrow> bool" where
  "filters_ok h =
     (coeffs_ok (hp_b h) (hp_a h) \<and> coeffs_ok (notch_b h) (notch_a h)
      \<and> coeffs_ok (bp_b h) (bp_a h) \<and> coeffs_ok (lp_b h) (lp_a h))"

definition pipeline_padlen :: "delsys_handler \<Rightarrow> nat" where
  "pipeline_padlen h =
     max (max (padlen (hp_b h) (hp_a h)) (padlen (notch_b h) (notch_a h)))
         (max (padlen (bp_b h) (bp_a h)) (padlen (lp_b h) (lp_a h)))"

text \<open>
  The state the data path keeps between frames: one buffer per sensor and a label for each,
  every buffer bounded by the accumulation size and not full (a full one is drained in the
  frame that fills it), the queue within its bound, usable coefficients, and an accumulation
  size beyond the pad length of every stage.
\<close>

definition handler_wf :: "delsys_handler \<Rightarrow> bool" where
  "handler_wf h =
     (length (emg_processing_buffers h) = NUM_SENSORS h
      \<and> NUM_SENSORS h \<le> length (muscle_labels h)
      \<and> list_all (\<lambda>d. maxlen d = ACCUMULATION_SIZE h \<and> length (items d) < ACCUMULATION_SIZE h)
            (emg_processing_buffers h)
      \<and> length (output_queue h) \<le> OUTPUT_QUEUE_MAXSIZE
      \<and> filters_ok h \<and> pipeline_padlen h < ACCUMULATION_SIZE h)"

text \<open>
  What a bounded buffer holding \<open>d\<close> contains after it was extended by \<open>xs\<close>; what is
  left in it at the end of the channel's turn; the filtering passes of that turn. In
  \<open>same_setup\<close> two handlers differ in their queue and buffers at most.
\<close>

definition accumulated :: "nat \<Rightarrow> 'a list \<Rightarrow> 'a list \<Rightarrow> 'a list" where
  "accumulated n d xs = drop (length d + length xs - n) (d @ xs)"

definition step_items :: "nat \<Rightarrow> 'a list \<Rightarrow> 'a list \<Rightarrow> 'a list" where
  "step_items n d xs = (if n \<le> length d + length xs then [] else d @ xs)"

definition step_passes :: "nat \<Rightarrow> nat \<Rightarrow> real list \<Rightarrow> real list \<Rightarrow> filter_pass list" where
  "step_passes n c d xs = (if n \<le> length d + length xs then [(c, accumulated n d xs)] else [])"

definition same_setup :: "delsys_handler \<Rightarrow> delsys_handler \<Rightarrow> bool" where
  "same_setup h h' =
     (h' = h\<lparr>output_queue := output_queue h',
              emg_processing_buffers := emg_processing_buffers h'\<rparr>)"

text \<open>
  The coefficients of a handler are those the designers return for a sampling rate, with
  the orders and frequencies of \<open>_design_filters\<close>.
\<close>

definition designed_for :: "sigproc \<Rightarrow> real \<Rightarrow> delsys_handler \<Rightarrow> bool" where
  "designed_for sp rate h =
     (butter sp 2 [0.5 / (0.5 * rate)] Highpass = Inr (hp_b h, hp_a h)
      \<and> iirnotch sp (60 / (0.5 * rate)) 30 = Inr (notch_b h, notch_a h)
      \<and> butter sp 4 [20 / (0.5 * rate), 450 / (0.5 * rate)] Bandpass = Inr (bp_b h, bp_a h)
      \<and> butter sp 2 [10 / (0.5 * rate)] Lowpass = Inr (lp_b h, lp_a h))"

text \<open>
  The default profile: 16 sensors, an accumulation size of 75 and frames of 1728 bytes,
  432 floats, 27 to a channel. Three such frames bring a channel 81 samples; the windows
  of such a cycle, one for each channel, are the last 75 of them.
\<close>

definition default_profile :: "delsys_handler \<Rightarrow> bool" where
  "default_profile h =
     (NUM_SENSORS h = 16 \<and> ACCUMULATION_SIZE h = 75 \<and> rate_adjusted_bytes h = 1728)"

definition cycle_windows :: "real list \<Rightarrow> real list \<Rightarrow> real list \<Rightarrow> filter_pass list" where
  "cycle_windows f1 f2 f3 =
     map (\<lambda>c. (c, drop 6 (slice_from_step c 16 f1 @ slice_from_step c 16 f2
                            @ slice_from_step c 16 f3)))
       [0..<16]"

section \<open>Concrete inputs\<close>

text \<open>Sessions and outcomes at which the theorems below are instantiated.\<close>

definition all_writes_succeed :: io_outcome where
  "all_writes_succeed = \<lparr>bin_write_ok = True, meta_write_ok = True, clock = 0\<rparr>"

definition lagging_session :: app_state where
  "lagging_session =
     \<lparr>handler = None,
      recording_data_buffer = [] # [1, 2, 3] # replicate 15 [],
      is_recording = True, start_time = Some 0,
      recording_session_start_time = None, trial_counter = 1\<rparr>"

definition empty_session :: app_state where
  "empty_session =
     \<lparr>handler = None, recording_data_buffer = replicate 17 [],
      is_recording = True, start_time = None,
      recording_session_start_time = None, trial_counter = 1\<rparr>"

text \<open>
  The example of four channels with 100, 100, 97 and 100 samples, and an outcome in which
  only the metadata write fails.
\<close>

definition four_channel_config :: config where
  "four_channel_config = \<lparr>app_NUM_SENSORS = 4, app_SAMPLING_RATE = 2000\<rparr>"

definition uneven_session :: app_state where
  "uneven_session =
     \<lparr>handler = None,
      recording_data_buffer =
        [[], map real [0..<100], map real [0..<100], map real [100..<197], map real [0..<100]],
      is_recording = True, start_time = Some 10,
      recording_session_start_time = Some 0, trial_counter = 3\<rparr>"

definition metadata_write_fails :: io_outcome where
  "metadata_write_fails = \<lparr>bin_write_ok = True, meta_write_ok = False, clock = 0\<rparr>"

text \<open>
  A stand-in for the coefficient designers that returns the identity filter with the
  documented number of coefficients, a handler configured with it from the reply
  \<open>1925.926\<close>, and a session recorded through that handler.
\<close>

definition passthrough_coeffs :: "nat \<Rightarrow> real list \<times> real list" where
  "passthrough_coeffs taps = (1 # replicate (taps - 1) 0, 1 # replicate (taps - 1) 0)"

definition passthrough_sigproc :: sigproc where
  "passthrough_sigproc =
     \<lparr>butter = (\<lambda>n Wn bt. if list_all (\<lambda>w. 0 < w \<and> w < 1) Wn
                          then Inr (passthrough_coeffs (butter_taps n bt)) else Inl ValueError),
      iirnotch = (\<lambda>w0 Q. if 0 < w0 \<and> w0 < 1
                          then Inr (passthrough_coeffs 3) else Inl ValueError)\<rparr>"

definition negotiated_handler :: "string \<Rightarrow> delsys_handler option" where
  "negotiated_handler reply =
     (case handler_init passthrough_sigproc 16 2000 False of
        Inl e \<Rightarrow> None
      | Inr h \<Rightarrow>
          (case configure_system passthrough_sigproc
                  \<lparr>rate_command_sent = True, rate_query_sent = True, rate_reply = Some reply\<rparr> h of
             (ok, h') \<Rightarrow> if ok then Some h' else None))"

definition alternate_rate_session :: app_state where
  "alternate_rate_session =
     \<lparr>handler = negotiated_handler ''1925.926'',
      recording_data_buffer = [] # replicate 16 [5, 7],
      is_recording = True, start_time = Some 0,
      recording_session_start_time = Some 0, trial_counter = 1\<rparr>"

text \<open>The handler the constructor returns with that stand-in, for 16 sensors at 2000 Hz.\<close>

definition passthrough_handler :: delsys_handler where
  "passthrough_handler =
     \<lparr>NUM_SENSORS = 16, envelope = True, SAMPLING_RATE = 2000,
      muscle_labels = default_muscle_labels, output_queue = [],
      ACCUMULATION_SIZE = 75,
      emg_processing_buffers = replicate 16 \<lparr>maxlen = 75, items = []\<rparr>,
      streaming = False, rate_adjusted_bytes = 1728,
      hp_b = [1, 0, 0], hp_a = [1, 0, 0], notch_b = [1, 0, 0], notch_a = [1, 0, 0],
      bp_b = 1 # replicate 8 0, bp_a = 1 # replicate 8 0, lp_b = [1, 0, 0], lp_a = [1, 0, 0]\<rparr>"

text \<open>A window shorter than the padding of the band-pass stage.\<close>

definition short_window :: "real list" where
  "short_window = replicate 20 1"

text \<open>
  A frame of the default size, 432 floats, and a handler whose buffers hold 54 samples
  each, as after two such frames.
\<close>

definition ramp_frame :: "real list" where
  "ramp_frame = map real [0..<432]"

definition nearly_full_handler :: delsys_handler where
  "nearly_full_handler =
     passthrough_handler
       \<lparr>emg_processing_buffers := replicate 16 \<lparr>maxlen = 75, items = replicate 54 1\<rparr>\<rparr>"

text \<open>
  Two outcomes of the rate query, and the handler the constructor's body returns for an
  accumulation size of 20 with the stand-in designers.
\<close>

definition alternate_reply :: comm_outcome where
  "alternate_reply =
     \<lparr>rate_command_sent = True, rate_query_sent = True, rate_reply = Some ''1925.926''\<rparr>"



section \<open>Facts about the containers\<close>

lemma tl_drop_1: "tl xs = drop (Suc 0) xs"
  by (simp add: drop_Suc)

lemma deque_append_eq:
  assumes "length d \<le> n"
  shows "deque_append n d x = drop (Suc (length d) - n) (d @ [x])"
proof (cases "length d = n")
  case True
  then have "Suc (length d) - n = Suc 0" by simp
  then have "drop (Suc (length d) - n) (d @ [x]) = tl (d @ [x])"
    by (simp only: tl_drop_1)
  moreover have "deque_append n d x = tl (d @ [x])"
    using True by (simp add: deque_append_def)
  ultimately show ?thesis by simp
next
  case False
  with assms have "length d < n" by simp
  then show ?thesis by (simp add: deque_append_def)
qed

lemma deque_append_length:
  assumes "length d \<le> n"
  shows "length (deque_append n d x) \<le> n"
  using assms by (simp add: deque_append_eq)

lemma drop_drop_append:
  "drop k (drop j ys @ xs) = drop (k + j) (ys @ xs)" if "j \<le> length ys"
  using that by (simp add: drop_append add.commute)

lemma deque_extend_eq:
  "length d \<le> n \<Longrightarrow> deque_extend n d xs = drop (length d + length xs - n) (d @ xs)"
proof (induction xs arbitrary: d)
  case Nil
  then show ?case by simp
next
  case (Cons x xs)
  let ?j = "Suc (length d) - n"
  let ?d = "drop ?j (d @ [x])"
  have d: "deque_append n d x = ?d"
    using Cons.prems by (rule deque_append_eq)
  have len: "length ?d \<le> n" using Cons.prems by simp
  have j: "?j \<le> length (d @ [x])" by simp
  have "deque_extend n d (x # xs) = drop (length ?d + length xs - n) (?d @ xs)"
    using Cons.IH [OF len] by (simp only: deque_extend.simps d)
  also have "\<dots> = drop (length ?d + length xs - n + ?j) ((d @ [x]) @ xs)"
    using j by (rule drop_drop_append)
  also have "length ?d + length xs - n + ?j = length d + length (x # xs) - n"
    using Cons.prems by simp
  finally show ?case by simp
qed


lemma output_queue_put_eq:
  assumes "0 < n" and "length q \<le> n"
  shows "output_queue_put n q x = Inr (drop (Suc (length q) - n) (q @ [x]))"
proof (cases "length q = n")
  case True
  with assms(1) obtain y q' where q: "q = y # q'" by (cases q) auto
  from True have "Suc (length q) - n = Suc 0" by simp
  then have "drop (Suc (length q) - n) (q @ [x]) = q' @ [x]"
    by (simp add: q)
  moreover have "output_queue_put n q x = Inr (q' @ [x])"
    using True assms(1) q
    by (auto simp: output_queue_put_def put_nowait_def get_nowait_def)
  ultimately show ?thesis by simp
next
  case False
  with assms(2) have "length q < n" by simp
  then show ?thesis
    by (simp add: output_queue_put_def put_nowait_def)
qed

lemma push_all_eq:
  assumes "0 < n"
  shows "length q \<le> n \<Longrightarrow> push_all n q xs = Inr (drop (length q + length xs - n) (q @ xs))"
proof (induction xs arbitrary: q)
  case Nil
  then show ?case by simp
next
  case (Cons x xs)
  let ?j = "Suc (length q) - n"
  let ?q = "drop ?j (q @ [x])"
  have step: "output_queue_put n q x = Inr ?q"
    using assms Cons.prems by (rule output_queue_put_eq)
  have len: "length ?q \<le> n" using Cons.prems by simp
  have j: "?j \<le> length (q @ [x])" by simp
  have "push_all n q (x # xs) = Inr (drop (length ?q + length xs - n) (?q @ xs))"
    using Cons.IH [OF len] by (simp only: push_all.simps step sum.case)
  also have "drop (length ?q + length xs - n) (?q @ xs)
      = drop (length ?q + length xs - n + ?j) ((q @ [x]) @ xs)"
    using j by (rule drop_drop_append)
  also have "length ?q + length xs - n + ?j = length q + length (x # xs) - n"
    using Cons.prems by simp
  finally show ?case by simp
qed

section \<open>The output queue under overload\<close>

text \<open>
  Claim C3. A single producer that hands more than 1000 chunks to the output queue
  (capacity 1000), with no consumer running, leaves exactly 1000 chunks in it: the 1000
  handed over last, in the order in which they were handed over. This holds whatever the
  queue held before.
\<close>

theorem output_queue_keeps_newest:
  assumes "OUTPUT_QUEUE_MAXSIZE < length xs" and "length q \<le> OUTPUT_QUEUE_MAXSIZE"
  shows "push_all OUTPUT_QUEUE_MAXSIZE q xs = Inr (drop (length xs - OUTPUT_QUEUE_MAXSIZE) xs)
       \<and> length (drop (length xs - OUTPUT_QUEUE_MAXSIZE) xs) = OUTPUT_QUEUE_MAXSIZE
       \<and> (\<forall>i < OUTPUT_QUEUE_MAXSIZE.
            drop (length xs - OUTPUT_QUEUE_MAXSIZE) xs ! i = xs ! (length xs - OUTPUT_QUEUE_MAXSIZE + i))"
proof -
  have pos: "0 < OUTPUT_QUEUE_MAXSIZE" by (simp add: OUTPUT_QUEUE_MAXSIZE_def)
  have "push_all OUTPUT_QUEUE_MAXSIZE q xs
      = Inr (drop (length q + length xs - OUTPUT_QUEUE_MAXSIZE) (q @ xs))"
    using pos assms(2) by (rule push_all_eq)
  also have "drop (length q + length xs - OUTPUT_QUEUE_MAXSIZE) (q @ xs)
      = drop (length xs - OUTPUT_QUEUE_MAXSIZE) xs"
    using assms(1) by simp
  finally show ?thesis using assms(1) by simp
qed

theorem output_queue_keeps_newest_witness:
  "OUTPUT_QUEUE_MAXSIZE < length (replicate 1000 (0::nat) @ [1, 2, 3])
   \<and> push_all OUTPUT_QUEUE_MAXSIZE [] (replicate 1000 (0::nat) @ [1, 2, 3])
       = Inr (replicate 997 0 @ [1, 2, 3])"
  using output_queue_keeps_newest [of "replicate 1000 (0::nat) @ [1, 2, 3]" "[]"]
  by (simp add: OUTPUT_QUEUE_MAXSIZE_def)

section \<open>Stopping a recording\<close>

lemma min_list_pos:
  "xs \<noteq> [] \<Longrightarrow> (0 < min_list xs) = (\<forall>x \<in> set xs. 0 < (x::nat))"
  by (simp add: min_list_Min)

lemma min_list_le: "x \<in> set xs \<Longrightarrow> min_list xs \<le> (x::nat)"
  by (cases "xs = []") (simp_all add: min_list_Min)

lemma stop_no_data:
  assumes "session_ready cfg st"
    and "\<forall>n \<in> set (sample_counts cfg (recording_data_buffer st)). n = 0"
  shows "stop_delsys_recording cfg io st =
     (st\<lparr>is_recording := False, handler := None,
         recording_data_buffer := empty_buffers cfg, start_time := None\<rparr>,
      no_output False No_data_captured)"
  using assms
  by (simp add: stop_delsys_recording_def session_ready_def Let_def
      list_all_iff)

lemma stop_saves:
  assumes "session_ready cfg st"
    and "sample_counts cfg (recording_data_buffer st) \<noteq> []"
    and "\<forall>n \<in> set (sample_counts cfg (recording_data_buffer st)). 0 < n"
  shows "stop_delsys_recording cfg io st =
    (let N = app_NUM_SENSORS cfg;
         st1 = st\<lparr>is_recording := False, handler := None\<rparr>;
         cleared = st1\<lparr>recording_data_buffer := empty_buffers cfg, start_time := None\<rparr>;
         min_samples = min_list (sample_counts cfg (recording_data_buffer st));
         timestamps = generate_timestamps cfg st1 min_samples;
         buffers = (recording_data_buffer st1)[0 := timestamps];
         final_data_arrays = map (align_row min_samples) (take (N + 1) buffers);
         padded = filter (\<lambda>i. length (buffers ! i) < min_samples) [0..<N + 1];
         st2 = cleared\<lparr>recording_session_start_time :=
                 (case recording_session_start_time cleared of
                    None \<Rightarrow> Some (clock io) | Some d \<Rightarrow> Some d)\<rparr>
     in if \<not> bin_write_ok io
        then (st2, \<lparr>success = False, message = Error_saving_binary_file,
                 bin_file = None, meta_file = None,
                 padded_channels = padded, metadata_warning = False\<rparr>)
        else (st2\<lparr>trial_counter := trial_counter st2 + 1\<rparr>,
              \<lparr>success = True, message = Recording_saved_successfully min_samples,
               bin_file = Some final_data_arrays,
               meta_file = (if meta_write_ok io
                  then Some \<lparr>fs = app_SAMPLING_RATE cfg, total_analog_in_ch = N,
                             trial_number = trial_counter st2\<rparr> else None),
               padded_channels = padded, metadata_warning = (\<not> meta_write_ok io)\<rparr>))"
proof -
  let ?cs = "sample_counts cfg (recording_data_buffer st)"
  have pos: "0 < min_list ?cs" using assms(2,3) by (simp add: min_list_pos)
  have notall: "\<not> list_all (\<lambda>count. count = 0) ?cs"
    using assms(2,3) by (cases ?cs) (auto simp: list_all_iff)
  show ?thesis
    using assms(1) assms(2) pos notall
    unfolding stop_delsys_recording_def session_ready_def Let_def
    by simp
qed

lemma align_row_length: "length (align_row m r) = m"
  by (simp add: align_row_def)

lemma align_row_take: "m \<le> length r \<Longrightarrow> align_row m r = take m r"
  by (simp add: align_row_def)

lemma generate_timestamps_length: "length (generate_timestamps cfg st n) = n"
  by (simp add: generate_timestamps_def split: option.splits)

lemma sample_counts_length: "length (sample_counts cfg b) = app_NUM_SENSORS cfg"
  by (simp add: sample_counts_def)

lemma sample_counts_nth:
  "c < app_NUM_SENSORS cfg \<Longrightarrow> sample_counts cfg b ! c = length (b ! (c + 1))"
  by (simp add: sample_counts_def nth_append del: upt_Suc)

lemma min_samples_le:
  assumes "c < app_NUM_SENSORS cfg"
  shows "min_list (sample_counts cfg b) \<le> length (b ! (c + 1))"
proof -
  have "sample_counts cfg b ! c \<in> set (sample_counts cfg b)"
    using assms by (simp add: sample_counts_length)
  then show ?thesis
    using min_list_le sample_counts_nth [OF assms] by metis
qed

lemma stop_bin_file:
  assumes "session_ready cfg st"
    and "sample_counts cfg (recording_data_buffer st) \<noteq> []"
    and "\<forall>n \<in> set (sample_counts cfg (recording_data_buffer st)). 0 < n"
    and "bin_write_ok io"
  shows "bin_file (snd (stop_delsys_recording cfg io st)) =
     Some (map (align_row (min_list (sample_counts cfg (recording_data_buffer st))))
       ((recording_data_buffer st)
          [0 := generate_timestamps cfg (st\<lparr>is_recording := False, handler := None\<rparr>)
                  (min_list (sample_counts cfg (recording_data_buffer st)))]))"
    and "padded_channels (snd (stop_delsys_recording cfg io st)) =
      filter (\<lambda>i. length (((recording_data_buffer st)
          [0 := generate_timestamps cfg (st\<lparr>is_recording := False, handler := None\<rparr>)
                  (min_list (sample_counts cfg (recording_data_buffer st)))]) ! i)
             < min_list (sample_counts cfg (recording_data_buffer st)))
        [0..<app_NUM_SENSORS cfg + 1]"
  using assms(1,4) by (simp_all add: stop_saves [OF assms(1-3)] Let_def session_ready_def)

lemma empty_session_ready: "session_ready app_config empty_session"
  by (simp add: session_ready_def app_config_def empty_session_def)

lemma empty_session_counts:
  "\<forall>n \<in> set (sample_counts app_config (recording_data_buffer empty_session)). n = 0"
  by (auto simp: sample_counts_def app_config_def empty_session_def)

lemma uneven_counts:
  "sample_counts four_channel_config (recording_data_buffer uneven_session) = [100, 100, 97, 100]"
  by (simp add: sample_counts_def four_channel_config_def uneven_session_def upt_rec numeral_nat)

lemma uneven_ready: "session_ready four_channel_config uneven_session"
  by (simp add: session_ready_def four_channel_config_def uneven_session_def)

lemma four_channel_N [simp]: "app_NUM_SENSORS four_channel_config = 4"
  by (simp add: four_channel_config_def)

lemma four_channel_fs [simp]: "app_SAMPLING_RATE four_channel_config = 2000"
  by (simp add: four_channel_config_def)

lemma contains_1925: "str_contains ''1925'' (strip ''1925.926'')"
  by (simp add: str_contains_def strip_def py_isspace_def sublist_code)

lemma negotiated_rate:
  "map_option SAMPLING_RATE (negotiated_handler ''1925.926'') = Some 1925.926"
  by (simp add: negotiated_handler_def handler_init_def handler_init_with_def design_filters_def
      passthrough_sigproc_def passthrough_coeffs_def configure_system_def contains_1925 Let_def)

text \<open>
  Claim C9. A stop of an active session in which every channel row is empty returns the
  failure "no data was captured", writes neither file, and leaves all rows of the buffer
  empty (and the trial counter as it was).
\<close>

theorem stop_without_data:
  assumes "session_ready cfg st"
    and "\<forall>n \<in> set (sample_counts cfg (recording_data_buffer st)). n = 0"
  shows "(case stop_delsys_recording cfg io st of (st', out) \<Rightarrow>
           \<not> success out \<and> message out = No_data_captured
           \<and> bin_file out = None \<and> meta_file out = None
           \<and> length (recording_data_buffer st') = app_NUM_SENSORS cfg + 1
           \<and> (\<forall>row \<in> set (recording_data_buffer st'). row = [])
           \<and> \<not> is_recording st' \<and> trial_counter st' = trial_counter st)"
  by (simp add: stop_no_data [OF assms] no_output_def empty_buffers_def)

theorem stop_without_data_witness:
  "session_ready app_config empty_session
   \<and> \<not> success (snd (stop_delsys_recording app_config all_writes_succeed empty_session))
   \<and> message (snd (stop_delsys_recording app_config all_writes_succeed empty_session))
       = No_data_captured
   \<and> bin_file (snd (stop_delsys_recording app_config all_writes_succeed empty_session)) = None
   \<and> recording_data_buffer
         (fst (stop_delsys_recording app_config all_writes_succeed empty_session))
       = replicate 17 []"
proof -
  let ?st = "fst (stop_delsys_recording app_config all_writes_succeed empty_session)"
  note r = stop_without_data [OF empty_session_ready empty_session_counts, of all_writes_succeed]
  from r have "length (recording_data_buffer ?st) = 17"
    and "\<And>row. row \<in> set (recording_data_buffer ?st) \<Longrightarrow> row = []"
    by (simp_all add: split_beta app_config_def)
  then have "recording_data_buffer ?st = replicate 17 []"
    by (rule replicate_eqI)
  with r empty_session_ready show ?thesis
    by (simp add: split_beta)
qed

text \<open>
  Claim C7. The trial counter goes up by one exactly when the stop wrote the binary file.
  A failed metadata write is a warning only: the stop still succeeds and the counter still
  goes up. A failed binary write makes the stop fail and leaves the counter alone.
\<close>

theorem trial_counter_follows_binary_write:
  "(case stop_delsys_recording cfg io st of (st', out) \<Rightarrow>
      (trial_counter st' = trial_counter st + 1 \<longleftrightarrow> bin_file out \<noteq> None)
      \<and> (bin_file out = None \<longrightarrow> trial_counter st' = trial_counter st)
      \<and> (success out \<longleftrightarrow> bin_file out \<noteq> None)
      \<and> (metadata_warning out \<longrightarrow>
            success out \<and> meta_file out = None \<and> trial_counter st' = trial_counter st + 1)
      \<and> (message out = Error_saving_binary_file \<longrightarrow>
            \<not> success out \<and> trial_counter st' = trial_counter st)
      \<and> (session_ready cfg st \<and> sample_counts cfg (recording_data_buffer st) \<noteq> []
           \<and> (\<forall>n \<in> set (sample_counts cfg (recording_data_buffer st)). 0 < n) \<longrightarrow>
            (if bin_write_ok io
             then success out \<and> trial_counter st' = trial_counter st + 1
                  \<and> metadata_warning out = (\<not> meta_write_ok io)
             else \<not> success out \<and> message out = Error_saving_binary_file
                  \<and> trial_counter st' = trial_counter st)))"
proof -
  have general:
    "(case stop_delsys_recording cfg io st of (st', out) \<Rightarrow>
      (trial_counter st' = trial_counter st + 1 \<longleftrightarrow> bin_file out \<noteq> None)
      \<and> (bin_file out = None \<longrightarrow> trial_counter st' = trial_counter st)
      \<and> (success out \<longleftrightarrow> bin_file out \<noteq> None)
      \<and> (metadata_warning out \<longrightarrow>
            success out \<and> meta_file out = None \<and> trial_counter st' = trial_counter st + 1)
      \<and> (message out = Error_saving_binary_file \<longrightarrow>
            \<not> success out \<and> trial_counter st' = trial_counter st))"
    by (simp add: stop_delsys_recording_def Let_def no_output_def)
  have ready:
    "(case stop_delsys_recording cfg io st of (st', out) \<Rightarrow>
        (if bin_write_ok io
             then success out \<and> trial_counter st' = trial_counter st + 1
                  \<and> metadata_warning out = (\<not> meta_write_ok io)
             else \<not> success out \<and> message out = Error_saving_binary_file
                  \<and> trial_counter st' = trial_counter st))"
    if "session_ready cfg st" "sample_counts cfg (recording_data_buffer st) \<noteq> []"
       "\<forall>n \<in> set (sample_counts cfg (recording_data_buffer st)). 0 < n"
    by (simp add: stop_saves [OF that] Let_def)
  show ?thesis using general ready by (auto simp: split_beta)
qed

theorem trial_counter_follows_binary_write_witness:
  "session_ready four_channel_config uneven_session
   \<and> success (snd (stop_delsys_recording four_channel_config metadata_write_fails uneven_session))
   \<and> metadata_warning (snd (stop_delsys_recording four_channel_config metadata_write_fails
        uneven_session))
   \<and> trial_counter (fst (stop_delsys_recording four_channel_config metadata_write_fails
        uneven_session)) = 4"
proof -
  have pos: "\<forall>n \<in> set (sample_counts four_channel_config (recording_data_buffer uneven_session)). 0 < n"
    by (simp add: uneven_counts)
  have ne: "sample_counts four_channel_config (recording_data_buffer uneven_session) \<noteq> []"
    by (simp add: uneven_counts)
  have io: "bin_write_ok metadata_write_fails" "\<not> meta_write_ok metadata_write_fails"
    by (simp_all add: metadata_write_fails_def)
  have tc: "trial_counter uneven_session = 3" by (simp add: uneven_session_def)
  show ?thesis
    using trial_counter_follows_binary_write
      [where cfg = four_channel_config and io = metadata_write_fails and st = uneven_session]
      uneven_ready pos ne io tc
    by (auto simp: split_beta)
qed

lemma stop_aligns:
  assumes "session_ready cfg st"
    and "sample_counts cfg (recording_data_buffer st) \<noteq> []"
    and "\<forall>n \<in> set (sample_counts cfg (recording_data_buffer st)). 0 < n"
    and "bin_write_ok io"
  shows "\<exists>m. bin_file (snd (stop_delsys_recording cfg io st)) = Some m
      \<and> length m = app_NUM_SENSORS cfg + 1
      \<and> (\<forall>row \<in> set m. length row = min_list (sample_counts cfg (recording_data_buffer st)))
      \<and> (\<forall>c < app_NUM_SENSORS cfg.
            m ! (c + 1) = take (min_list (sample_counts cfg (recording_data_buffer st)))
                            (recording_data_buffer st ! (c + 1)))
      \<and> (\<forall>c < app_NUM_SENSORS cfg.
            length (recording_data_buffer st ! (c + 1))
              = min_list (sample_counts cfg (recording_data_buffer st))
            \<longrightarrow> m ! (c + 1) = recording_data_buffer st ! (c + 1))
      \<and> padded_channels (snd (stop_delsys_recording cfg io st)) = []"
proof -
  let ?b = "recording_data_buffer st"
  let ?k = "min_list (sample_counts cfg ?b)"
  let ?ts = "generate_timestamps cfg (st\<lparr>is_recording := False, handler := None\<rparr>) ?k"
  let ?m = "map (align_row ?k) (?b[0 := ?ts])"
  have len: "length ?b = app_NUM_SENSORS cfg + 1"
    using assms(1) by (simp add: session_ready_def)
  have row: "?m ! (c + 1) = take ?k (?b ! (c + 1))" if "c < app_NUM_SENSORS cfg" for c
    using that len min_samples_le [OF that, of ?b] by (simp add: align_row_take)
  have pad: "\<not> length ((?b[0 := ?ts]) ! i) < ?k" if "i < app_NUM_SENSORS cfg + 1" for i
  proof (cases i)
    case 0
    then show ?thesis using len by (simp add: generate_timestamps_length)
  next
    case (Suc c)
    with that have "c < app_NUM_SENSORS cfg" by simp
    from min_samples_le [OF this, of ?b] Suc show ?thesis by simp
  qed
  have "bin_file (snd (stop_delsys_recording cfg io st)) = Some ?m"
    using assms by (rule stop_bin_file(1))
  moreover have "length ?m = app_NUM_SENSORS cfg + 1" using len by simp
  moreover have "\<forall>row \<in> set ?m. length row = ?k" by (auto simp: align_row_length)
  moreover have "\<forall>c < app_NUM_SENSORS cfg. ?m ! (c + 1) = take ?k (?b ! (c + 1))"
    using row by blast
  moreover have "\<forall>c < app_NUM_SENSORS cfg.
      length (?b ! (c + 1)) = ?k \<longrightarrow> ?m ! (c + 1) = ?b ! (c + 1)"
    using row by simp
  moreover have "padded_channels (snd (stop_delsys_recording cfg io st)) = []"
    using pad by (simp add: stop_bin_file(2) [OF assms] filter_empty_conv del: upt_Suc)
  ultimately show ?thesis by blast
qed

text \<open>
  Claim C4, as stated, fails: when some channel rows hold samples and another is empty, the
  counts are not all zero, yet nothing is persisted.
\<close>

theorem stop_partial_data_counterexample:
  "\<not> list_all (\<lambda>n. n = 0) (sample_counts app_config (recording_data_buffer lagging_session))
   \<and> session_ready app_config lagging_session
   \<and> bin_file (snd (stop_delsys_recording app_config all_writes_succeed lagging_session)) = None
   \<and> message (snd (stop_delsys_recording app_config all_writes_succeed lagging_session))
       = No_data_captured_after_trimming"
  by (simp add: stop_delsys_recording_def sample_counts_def app_config_def lagging_session_def
      session_ready_def all_writes_succeed_def no_output_def Let_def upt_rec numeral_nat nth_Cons')

lemma stop_after_trimming:
  assumes "session_ready cfg st"
    and "\<exists>n \<in> set (sample_counts cfg (recording_data_buffer st)). n = 0"
    and "\<exists>n \<in> set (sample_counts cfg (recording_data_buffer st)). 0 < n"
  shows "stop_delsys_recording cfg io st =
     (st\<lparr>is_recording := False, handler := None,
         recording_data_buffer := empty_buffers cfg, start_time := None\<rparr>,
      no_output False No_data_captured_after_trimming)"
proof -
  let ?cs = "sample_counts cfg (recording_data_buffer st)"
  from assms(2) have ne: "?cs \<noteq> []" by auto
  from assms(2) obtain n where "n \<in> set ?cs" "n = 0" by blast
  then have "min_list ?cs \<le> 0" using min_list_le by blast
  then have zero: "min_list ?cs = 0" by simp
  from assms(3) have notall: "\<not> list_all (\<lambda>count. count = 0) ?cs"
    by (auto simp: list_all_iff)
  show ?thesis
    using assms(1) ne zero notall
    unfolding stop_delsys_recording_def session_ready_def Let_def
    by simp
qed

lemma lagging_session_ready: "session_ready app_config lagging_session"
  by (simp add: session_ready_def app_config_def lagging_session_def)

lemma lagging_session_counts:
  "sample_counts app_config (recording_data_buffer lagging_session) = 3 # replicate 15 0"
  by (simp add: sample_counts_def app_config_def lagging_session_def upt_rec numeral_nat
      nth_Cons')

text \<open>
  Claim C4, amended. When every channel row holds at least one sample and the binary write
  succeeds, the persisted matrix has \<open>N + 1\<close> rows of \<open>min_len\<close> entries, \<open>min_len\<close>
  being the least channel length; each channel row is the first \<open>min_len\<close> samples of its
  buffer, unchanged when its length is \<open>min_len\<close>; no row is padded. When some channel
  row is empty and another is not, the stop fails with "no data was captured (after
  trimming)", writes neither file, leaves the trial counter and resets the buffer.
\<close>

theorem stop_aligns_channels:
  assumes "session_ready cfg st"
  shows "(sample_counts cfg (recording_data_buffer st) \<noteq> []
          \<and> (\<forall>n \<in> set (sample_counts cfg (recording_data_buffer st)). 0 < n)
          \<and> bin_write_ok io \<longrightarrow>
          (\<exists>m. bin_file (snd (stop_delsys_recording cfg io st)) = Some m
             \<and> length m = app_NUM_SENSORS cfg + 1
             \<and> (\<forall>row \<in> set m.
                   length row = min_list (sample_counts cfg (recording_data_buffer st)))
             \<and> (\<forall>c < app_NUM_SENSORS cfg.
                   m ! (c + 1) = take (min_list (sample_counts cfg (recording_data_buffer st)))
                                   (recording_data_buffer st ! (c + 1)))
             \<and> (\<forall>c < app_NUM_SENSORS cfg.
                   length (recording_data_buffer st ! (c + 1))
                     = min_list (sample_counts cfg (recording_data_buffer st))
                   \<longrightarrow> m ! (c + 1) = recording_data_buffer st ! (c + 1))
             \<and> padded_channels (snd (stop_delsys_recording cfg io st)) = []))
    \<and> ((\<exists>n \<in> set (sample_counts cfg (recording_data_buffer st)). n = 0)
          \<and> (\<exists>n \<in> set (sample_counts cfg (recording_data_buffer st)). 0 < n) \<longrightarrow>
          (case stop_delsys_recording cfg io st of
             (st', out) \<Rightarrow>
               \<not> success out \<and> message out = No_data_captured_after_trimming
               \<and> bin_file out = None \<and> meta_file out = None
               \<and> recording_data_buffer st' = replicate (app_NUM_SENSORS cfg + 1) []
               \<and> \<not> is_recording st' \<and> trial_counter st' = trial_counter st))"
proof (intro conjI impI)
  assume "sample_counts cfg (recording_data_buffer st) \<noteq> []
          \<and> (\<forall>n \<in> set (sample_counts cfg (recording_data_buffer st)). 0 < n)
          \<and> bin_write_ok io"
  with assms show "\<exists>m. bin_file (snd (stop_delsys_recording cfg io st)) = Some m
             \<and> length m = app_NUM_SENSORS cfg + 1
             \<and> (\<forall>row \<in> set m.
                   length row = min_list (sample_counts cfg (recording_data_buffer st)))
             \<and> (\<forall>c < app_NUM_SENSORS cfg.
                   m ! (c + 1) = take (min_list (sample_counts cfg (recording_data_buffer st)))
                                   (recording_data_buffer st ! (c + 1)))
             \<and> (\<forall>c < app_NUM_SENSORS cfg.
                   length (recording_data_buffer st ! (c + 1))
                     = min_list (sample_counts cfg (recording_data_buffer st))
                   \<longrightarrow> m ! (c + 1) = recording_data_buffer st ! (c + 1))
             \<and> padded_channels (snd (stop_delsys_recording cfg io st)) = []"
    by (intro stop_aligns) simp_all
next
  assume "(\<exists>n \<in> set (sample_counts cfg (recording_data_buffer st)). n = 0)
          \<and> (\<exists>n \<in> set (sample_counts cfg (recording_data_buffer st)). 0 < n)"
  then have "stop_delsys_recording cfg io st =
     (st\<lparr>is_recording := False, handler := None,
         recording_data_buffer := empty_buffers cfg, start_time := None\<rparr>,
      no_output False No_data_captured_after_trimming)"
    using assms by (intro stop_after_trimming) simp_all
  then show "case stop_delsys_recording cfg io st of
             (st', out) \<Rightarrow>
               \<not> success out \<and> message out = No_data_captured_after_trimming
               \<and> bin_file out = None \<and> meta_file out = None
               \<and> recording_data_buffer st' = replicate (app_NUM_SENSORS cfg + 1) []
               \<and> \<not> is_recording st' \<and> trial_counter st' = trial_counter st"
    by (simp add: no_output_def empty_buffers_def)
qed

theorem stop_aligns_channels_witness:
  "session_ready four_channel_config uneven_session
   \<and> (\<exists>m. bin_file (snd (stop_delsys_recording four_channel_config all_writes_succeed
              uneven_session)) = Some m
         \<and> length m = 5 \<and> (\<forall>row \<in> set m. length row = 97)
         \<and> m ! 1 = map real [0..<97] \<and> m ! 3 = map real [100..<197])
   \<and> session_ready app_config lagging_session
   \<and> message (snd (stop_delsys_recording app_config all_writes_succeed lagging_session))
       = No_data_captured_after_trimming
   \<and> bin_file (snd (stop_delsys_recording app_config all_writes_succeed lagging_session)) = None
   \<and> recording_data_buffer
         (fst (stop_delsys_recording app_config all_writes_succeed lagging_session))
       = replicate 17 []"
proof -
  have pos: "\<forall>n \<in> set (sample_counts four_channel_config (recording_data_buffer uneven_session)). 0 < n"
    by (simp add: uneven_counts)
  have ne: "sample_counts four_channel_config (recording_data_buffer uneven_session) \<noteq> []"
    by (simp add: uneven_counts)
  have ok: "bin_write_ok all_writes_succeed" by (simp add: all_writes_succeed_def)
  from stop_aligns_channels [OF uneven_ready, of all_writes_succeed] ne pos ok
  obtain m where m: "bin_file (snd (stop_delsys_recording four_channel_config all_writes_succeed
              uneven_session)) = Some m" "length m = 5" "\<forall>row \<in> set m. length row = 97"
     "\<forall>c < 4. m ! (c + 1) = take 97 (recording_data_buffer uneven_session ! (c + 1))"
    by (auto simp: uneven_counts)
  from m(4) [rule_format, of 0]
  have "m ! (0 + 1) = take 97 (recording_data_buffer uneven_session ! (0 + 1))"
    by simp
  then have r1: "m ! 1 = map real [0..<97]"
    by (simp add: uneven_session_def take_map)
  from m(4) [rule_format, of 2]
  have "m ! (2 + 1) = take 97 (recording_data_buffer uneven_session ! (2 + 1))"
    by simp
  then have r3: "m ! 3 = map real [100..<197]"
    by (simp add: uneven_session_def take_map numeral_nat)
  have first: "\<exists>m. bin_file (snd (stop_delsys_recording four_channel_config all_writes_succeed
              uneven_session)) = Some m
         \<and> length m = 5 \<and> (\<forall>row \<in> set m. length row = 97)
         \<and> m ! 1 = map real [0..<97] \<and> m ! 3 = map real [100..<197]"
    using m(1,2,3) r1 r3 by blast
  have mixed: "(\<exists>n \<in> set (sample_counts app_config (recording_data_buffer lagging_session)). n = 0)
     \<and> (\<exists>n \<in> set (sample_counts app_config (recording_data_buffer lagging_session)). 0 < n)"
    by (simp add: lagging_session_counts)
  from stop_aligns_channels [OF lagging_session_ready, of all_writes_succeed] mixed
  have second:
    "message (snd (stop_delsys_recording app_config all_writes_succeed lagging_session))
       = No_data_captured_after_trimming
     \<and> bin_file (snd (stop_delsys_recording app_config all_writes_succeed lagging_session)) = None
     \<and> recording_data_buffer
         (fst (stop_delsys_recording app_config all_writes_succeed lagging_session))
       = replicate 17 []"
    by (auto simp: split_beta app_config_def)
  from first second uneven_ready lagging_session_ready show ?thesis by blast
qed

text \<open>
  Claim C1, as stated, fails: a session recorded through a handler that negotiated
  1925.926 Hz is still stamped at the application's own constant, 2000 Hz.
\<close>

theorem timestamps_use_negotiated_rate_counterexample:
  "map_option SAMPLING_RATE (handler alternate_rate_session) = Some 1925.926
   \<and> start_time alternate_rate_session = Some 0
   \<and> bin_file (snd (stop_delsys_recording app_config all_writes_succeed alternate_rate_session))
       = Some ([0, 1 / 2000] # replicate 16 [5, 7])
   \<and> (1 / 2000 :: real) \<noteq> 0 + real 1 / 1925.926"
proof -
  have "map_option SAMPLING_RATE (handler alternate_rate_session) = Some 1925.926"
    by (simp add: alternate_rate_session_def negotiated_rate)
  moreover have
    "bin_file (snd (stop_delsys_recording app_config all_writes_succeed alternate_rate_session))
       = Some ([0, 1 / 2000] # replicate 16 [5, 7])"
    by (simp add: stop_delsys_recording_def sample_counts_def app_config_def
        alternate_rate_session_def all_writes_succeed_def generate_timestamps_def align_row_def
        Let_def upt_rec numeral_nat)
  ultimately show ?thesis by (simp add: alternate_rate_session_def)
qed

text \<open>
  Claim C1, amended. When a stop persists data and the first-sample time \<open>t\<close> is set,
  row 0 of the matrix is \<open>t + i / SAMPLING_RATE\<close> for \<open>i < min_len\<close>, where
  \<open>SAMPLING_RATE\<close> is the constant of the application module (2000 in \<open>app_config\<close>),
  whatever rate the handler negotiated.
\<close>

theorem timestamps_use_configured_rate:
  assumes "session_ready cfg st"
    and "sample_counts cfg (recording_data_buffer st) \<noteq> []"
    and "\<forall>n \<in> set (sample_counts cfg (recording_data_buffer st)). 0 < n"
    and "bin_write_ok io"
    and "start_time st = Some t"
  shows "\<exists>m. bin_file (snd (stop_delsys_recording cfg io st)) = Some m
      \<and> length (m ! 0) = min_list (sample_counts cfg (recording_data_buffer st))
      \<and> (\<forall>i < min_list (sample_counts cfg (recording_data_buffer st)).
            m ! 0 ! i = t + real i / app_SAMPLING_RATE cfg)"
proof -
  let ?b = "recording_data_buffer st"
  let ?k = "min_list (sample_counts cfg ?b)"
  let ?ts = "generate_timestamps cfg (st\<lparr>is_recording := False, handler := None\<rparr>) ?k"
  let ?m = "map (align_row ?k) (?b[0 := ?ts])"
  have len: "length ?b = app_NUM_SENSORS cfg + 1"
    using assms(1) by (simp add: session_ready_def)
  have ts: "?ts = map (\<lambda>i. t + real i / app_SAMPLING_RATE cfg) [0..<?k]"
    using assms(5) by (simp add: generate_timestamps_def)
  have "?m ! 0 = align_row ?k ?ts" using len by simp
  also have "\<dots> = ?ts" by (simp add: align_row_def generate_timestamps_length)
  finally have m0: "?m ! 0 = map (\<lambda>i. t + real i / app_SAMPLING_RATE cfg) [0..<?k]"
    using ts by simp
  have "bin_file (snd (stop_delsys_recording cfg io st)) = Some ?m"
    using assms(1-4) by (rule stop_bin_file(1))
  moreover have "length (?m ! 0) = ?k" by (simp only: m0) simp
  moreover have "\<forall>i < ?k. ?m ! 0 ! i = t + real i / app_SAMPLING_RATE cfg"
    by (simp only: m0) simp
  ultimately show ?thesis by blast
qed

theorem timestamps_use_configured_rate_witness:
  "session_ready four_channel_config uneven_session
   \<and> (\<exists>m. bin_file (snd (stop_delsys_recording four_channel_config all_writes_succeed
              uneven_session)) = Some m
         \<and> length (m ! 0) = 97 \<and> m ! 0 ! 96 = 10 + 96 / 2000)"
proof -
  have pos: "\<forall>n \<in> set (sample_counts four_channel_config (recording_data_buffer uneven_session)). 0 < n"
    by (simp add: uneven_counts)
  have ne: "sample_counts four_channel_config (recording_data_buffer uneven_session) \<noteq> []"
    by (simp add: uneven_counts)
  have ok: "bin_write_ok all_writes_succeed" by (simp add: all_writes_succeed_def)
  have t: "start_time uneven_session = Some 10" by (simp add: uneven_session_def)
  from timestamps_use_configured_rate [OF uneven_ready ne pos ok t]
  obtain m where m: "bin_file (snd (stop_delsys_recording four_channel_config all_writes_succeed
              uneven_session)) = Some m" "length (m ! 0) = 97"
     "\<forall>i < 97. m ! 0 ! i = 10 + real i / app_SAMPLING_RATE four_channel_config"
    by (auto simp: uneven_counts)
  from m(3) have "m ! 0 ! 96 = 10 + 96 / 2000"
    by simp
  with m(1,2) uneven_ready show ?thesis by blast
qed

section \<open>The filter pipeline\<close>

lemma lfilter_run_length: "length (lfilter_run b a z xs) = length xs"
  by (induction xs arbitrary: z) (auto split: prod.splits)

lemma lfilter_length: "length (lfilter b a x zi) = length x"
  by (simp add: lfilter_def lfilter_run_length split: prod.splits)

lemma odd_ext_length: "n < length x \<Longrightarrow> length (odd_ext x n) = length x + 2 * n"
  by (simp add: odd_ext_def Let_def)

lemma filtfilt_length:
  assumes "filtfilt b a x = Inr y"
  shows "length y = length x"
proof -
  let ?edge = "3 * max (length a) (length b)"
  from assms have long: "?edge < length x"
    by (auto simp: filtfilt_def Let_def split: if_splits)
  from assms long obtain zi where
    y: "y = (let ext = odd_ext x ?edge;
                 y1 = lfilter b a ext (map (\<lambda>z. z * hd ext) zi);
                 y2 = lfilter b a (rev y1) (map (\<lambda>z. z * last y1) zi);
                 y = rev y2
             in take (length y - 2 * ?edge) (drop ?edge y))"
    by (auto simp: filtfilt_def Let_def split: if_splits sum.splits)
  show ?thesis
    using long by (simp add: y Let_def lfilter_length odd_ext_length)
qed

lemma sum_list_map_divide:
  "sum_list (map (\<lambda>c. c / k) xs) = sum_list xs / (k :: real)"
  by (induction xs) (simp_all add: add_divide_distrib)

lemma sum_list_zeros: "sum_list (replicate n (0::real)) = 0"
  by (induction n) simp_all

lemma sum_list_normalized:
  "sum_list (snd (normalize_ba b a)) = sum_list a / hd a"
  by (simp add: normalize_ba_def Let_def sum_list_map_divide sum_list_zeros)

lemma drop_leading_zeros_id: "a \<noteq> [] \<Longrightarrow> hd a \<noteq> 0 \<Longrightarrow> drop_leading_zeros a = a"
  by (cases a rule: drop_leading_zeros.cases) simp_all

lemma length_normalized:
  "length (snd (normalize_ba b a)) = max (length a) (length b)"
  by (simp add: normalize_ba_def Let_def)

lemma lfilter_zi_returns:
  assumes "coeffs_ok b a"
  shows "\<exists>zi. lfilter_zi b a = Inr zi"
proof -
  from assms have a: "drop_leading_zeros a = a" "a \<noteq> []" "hd a \<noteq> 0"
    by (simp_all add: coeffs_ok_def drop_leading_zeros_id)
  obtain b' a' where n: "normalize_ba b a = (b', a')" by (cases "normalize_ba b a")
  then have s: "sum_list a' = sum_list a / hd a" and l: "length a' = max (length a) (length b)"
    using sum_list_normalized [of b a] length_normalized [of b a] by simp_all
  from assms s have "sum_list a' \<noteq> 0" by (simp add: coeffs_ok_def)
  moreover from assms have "2 \<le> max (length a) (length b)" by (simp add: coeffs_ok_def)
  with l have "\<not> length a' < 2" by linarith
  ultimately show ?thesis by (simp add: lfilter_zi_def a n Let_def)
qed

lemma lfilter_zi_single_tap:
  assumes "max (length a) (length b) < 2"
  shows "lfilter_zi b a = Inl ValueError"
proof (cases a)
  case Nil
  then show ?thesis by (simp add: lfilter_zi_def)
next
  case (Cons v vs)
  with assms have "vs = []" by simp
  with Cons assms show ?thesis
    by (simp add: lfilter_zi_def normalize_ba_def Let_def)
qed

lemma filtfilt_returns:
  assumes "coeffs_ok b a" and "padlen b a < length x"
  shows "\<exists>y. filtfilt b a x = Inr y \<and> length y = length x"
proof -
  from assms(1) obtain zi where "lfilter_zi b a = Inr zi"
    using lfilter_zi_returns by blast
  with assms have "\<exists>y. filtfilt b a x = Inr y"
    by (simp add: filtfilt_def Let_def coeffs_ok_def padlen_def)
  then show ?thesis using filtfilt_length by blast
qed

lemma filtfilt_short:
  "length x \<le> padlen b a \<Longrightarrow> filtfilt b a x = Inl ValueError"
  by (simp add: filtfilt_def Let_def padlen_def)

lemma pipeline_padlen_ge:
  "padlen (hp_b h) (hp_a h) \<le> pipeline_padlen h"
  "padlen (notch_b h) (notch_a h) \<le> pipeline_padlen h"
  "padlen (bp_b h) (bp_a h) \<le> pipeline_padlen h"
  "padlen (lp_b h) (lp_a h) \<le> pipeline_padlen h"
  by (simp_all add: pipeline_padlen_def)

lemma stage_rectify_length: "length (stage_rectify x) = length x"
  by (simp add: stage_rectify_def)

lemma stage_rectify_nonneg: "i < length x \<Longrightarrow> 0 \<le> stage_rectify x ! i"
  by (simp add: stage_rectify_def)

lemma process_emg_channel_returns:
  assumes "filters_ok h" and "pipeline_padlen h < length x"
  shows "\<exists>y1 y2 y3 y5.
      stage_highpass h x = Inr y1 \<and> length y1 = length x
    \<and> stage_notch h y1 = Inr y2 \<and> length y2 = length x
    \<and> stage_bandpass h y2 = Inr y3 \<and> length y3 = length x
    \<and> stage_envelope h (stage_rectify y3) = Inr y5 \<and> length y5 = length x
    \<and> (\<not> envelope h \<longrightarrow> y5 = stage_rectify y3)
    \<and> process_emg_channel h x = Inr y5"
proof -
  note p = pipeline_padlen_ge [of h]
  from assms p(1) obtain y1 where y1: "filtfilt (hp_b h) (hp_a h) x = Inr y1" "length y1 = length x"
    using filtfilt_returns [of "hp_b h" "hp_a h" x] by (auto simp: filters_ok_def)
  from assms p(2) y1 obtain y2 where
    y2: "filtfilt (notch_b h) (notch_a h) y1 = Inr y2" "length y2 = length x"
    using filtfilt_returns [of "notch_b h" "notch_a h" y1] by (auto simp: filters_ok_def)
  from assms p(3) y2 obtain y3 where
    y3: "filtfilt (bp_b h) (bp_a h) y2 = Inr y3" "length y3 = length x"
    using filtfilt_returns [of "bp_b h" "bp_a h" y2] by (auto simp: filters_ok_def)
  from assms p(4) y3 obtain y4 where
    y4: "filtfilt (lp_b h) (lp_a h) (stage_rectify y3) = Inr y4" "length y4 = length x"
    using filtfilt_returns [of "lp_b h" "lp_a h" "stage_rectify y3"]
    by (auto simp: filters_ok_def stage_rectify_length)
  let ?y5 = "if envelope h then y4 else stage_rectify y3"
  have e: "stage_envelope h (stage_rectify y3) = Inr ?y5"
    by (simp add: stage_envelope_def y4)
  have l: "length ?y5 = length x" by (simp add: y4 y3 stage_rectify_length)
  have "process_emg_channel h x = Inr ?y5"
    by (simp add: process_emg_channel_def stage_highpass_def stage_notch_def stage_bandpass_def
        y1 y2 y3 e)
  with y1 y2 y3 e l show ?thesis
    by (auto simp: stage_highpass_def stage_notch_def stage_bandpass_def)
qed

lemma passthrough_handler_init:
  "handler_init passthrough_sigproc 16 2000 True = Inr passthrough_handler"
  by (simp add: handler_init_def handler_init_with_def design_filters_def
      passthrough_sigproc_def passthrough_coeffs_def passthrough_handler_def Let_def
      numeral_eq_Suc)

lemma passthrough_filters_ok: "filters_ok passthrough_handler"
  by (simp add: filters_ok_def coeffs_ok_def passthrough_handler_def sum_list_zeros)

lemma passthrough_padlen: "pipeline_padlen passthrough_handler = 27"
  by (simp add: pipeline_padlen_def padlen_def passthrough_handler_def)

lemma stage_returns:
  assumes "coeffs_ok b a"
  shows "if padlen b a < length x
         then \<exists>y. filtfilt b a x = Inr y \<and> length y = length x
         else filtfilt b a x = Inl ValueError"
  using assms filtfilt_returns [of b a x] filtfilt_short [of x b a] by simp

text \<open>
  Claim C10, as stated, fails: a window of 20 samples is refused by the band-pass stage,
  whose padding is 27 samples, so that stage and the pipeline have no output for it.
\<close>

theorem short_window_counterexample:
  "length short_window = 20
   \<and> padlen (bp_b passthrough_handler) (bp_a passthrough_handler) = 27
   \<and> stage_bandpass passthrough_handler short_window = Inl ValueError
   \<and> process_emg_channel passthrough_handler short_window = Inl ValueError"
proof -
  let ?h = passthrough_handler
  have l: "length short_window = 20" by (simp add: short_window_def)
  have bp: "padlen (bp_b ?h) (bp_a ?h) = 27"
    by (simp add: padlen_def passthrough_handler_def)
  have hp: "padlen (hp_b ?h) (hp_a ?h) < 20" "padlen (notch_b ?h) (notch_a ?h) < 20"
    by (simp_all add: padlen_def passthrough_handler_def)
  have ok: "coeffs_ok (hp_b ?h) (hp_a ?h)" "coeffs_ok (notch_b ?h) (notch_a ?h)"
    using passthrough_filters_ok by (simp_all add: filters_ok_def)
  from filtfilt_returns [OF ok(1), of short_window] hp(1) l obtain y1 where
    y1: "filtfilt (hp_b ?h) (hp_a ?h) short_window = Inr y1" "length y1 = 20"
    by auto
  from filtfilt_returns [OF ok(2), of y1] hp(2) y1(2) obtain y2 where
    y2: "filtfilt (notch_b ?h) (notch_a ?h) y1 = Inr y2" "length y2 = 20"
    by auto
  have short: "filtfilt (bp_b ?h) (bp_a ?h) x = Inl ValueError" if "length x = 20" for x
    using that bp by (intro filtfilt_short) simp
  have "stage_bandpass ?h short_window = Inl ValueError"
    by (simp add: stage_bandpass_def short l)
  moreover have "process_emg_channel ?h short_window = Inl ValueError"
    by (simp add: process_emg_channel_def stage_highpass_def stage_notch_def stage_bandpass_def
        y1 y2 short)
  ultimately show ?thesis using l bp by simp
qed

text \<open>
  Claim C10, amended. With usable coefficients, every filtering stage, on every window:
  when the window is longer than the stage's pad length, three times its number of
  coefficients, the stage returns as many samples as it was given; otherwise it raises
  \<open>ValueError\<close> and has no output. (The envelope stage returns its input when the
  \<open>envelope\<close> flag is off.) The rectification returns as many samples as it was given,
  none of them negative. On a window longer than the pad length of every stage the stages
  of \<open>process_emg_channel\<close> return one after the other, the rectification among them
  whatever the flag, and the result has the length of the window.
\<close>

theorem pipeline_stages_preserve_length:
  assumes "filters_ok h"
  shows "(if padlen (hp_b h) (hp_a h) < length x
          then \<exists>y. stage_highpass h x = Inr y \<and> length y = length x
          else stage_highpass h x = Inl ValueError)
    \<and> (if padlen (notch_b h) (notch_a h) < length x
        then \<exists>y. stage_notch h x = Inr y \<and> length y = length x
        else stage_notch h x = Inl ValueError)
    \<and> (if padlen (bp_b h) (bp_a h) < length x
        then \<exists>y. stage_bandpass h x = Inr y \<and> length y = length x
        else stage_bandpass h x = Inl ValueError)
    \<and> (if \<not> envelope h then stage_envelope h x = Inr x
        else if padlen (lp_b h) (lp_a h) < length x
        then \<exists>y. stage_envelope h x = Inr y \<and> length y = length x
        else stage_envelope h x = Inl ValueError)
    \<and> length (stage_rectify x) = length x
    \<and> (\<forall>i < length x. 0 \<le> stage_rectify x ! i)
    \<and> (pipeline_padlen h < length x \<longrightarrow>
         (\<exists>y1 y2 y3 y5.
            stage_highpass h x = Inr y1 \<and> length y1 = length x
          \<and> stage_notch h y1 = Inr y2 \<and> length y2 = length y1
          \<and> stage_bandpass h y2 = Inr y3 \<and> length y3 = length y2
          \<and> length (stage_rectify y3) = length y3
          \<and> (\<forall>i < length y3. 0 \<le> stage_rectify y3 ! i)
          \<and> stage_envelope h (stage_rectify y3) = Inr y5 \<and> length y5 = length y3
          \<and> (\<not> envelope h \<longrightarrow> y5 = stage_rectify y3)
          \<and> process_emg_channel h x = Inr y5 \<and> length y5 = length x))"
proof -
  from assms have ok: "coeffs_ok (hp_b h) (hp_a h)" "coeffs_ok (notch_b h) (notch_a h)"
    "coeffs_ok (bp_b h) (bp_a h)" "coeffs_ok (lp_b h) (lp_a h)"
    by (simp_all add: filters_ok_def)
  have 1: "if padlen (hp_b h) (hp_a h) < length x
          then \<exists>y. stage_highpass h x = Inr y \<and> length y = length x
          else stage_highpass h x = Inl ValueError"
    unfolding stage_highpass_def by (rule stage_returns [OF ok(1)])
  have 2: "if padlen (notch_b h) (notch_a h) < length x
        then \<exists>y. stage_notch h x = Inr y \<and> length y = length x
        else stage_notch h x = Inl ValueError"
    unfolding stage_notch_def by (rule stage_returns [OF ok(2)])
  have 3: "if padlen (bp_b h) (bp_a h) < length x
        then \<exists>y. stage_bandpass h x = Inr y \<and> length y = length x
        else stage_bandpass h x = Inl ValueError"
    unfolding stage_bandpass_def by (rule stage_returns [OF ok(3)])
  have 4: "if \<not> envelope h then stage_envelope h x = Inr x
        else if padlen (lp_b h) (lp_a h) < length x
        then \<exists>y. stage_envelope h x = Inr y \<and> length y = length x
        else stage_envelope h x = Inl ValueError"
    using stage_returns [OF ok(4), of x] by (simp add: stage_envelope_def)
  have 5: "\<exists>y1 y2 y3 y5.
            stage_highpass h x = Inr y1 \<and> length y1 = length x
          \<and> stage_notch h y1 = Inr y2 \<and> length y2 = length y1
          \<and> stage_bandpass h y2 = Inr y3 \<and> length y3 = length y2
          \<and> length (stage_rectify y3) = length y3
          \<and> (\<forall>i < length y3. 0 \<le> stage_rectify y3 ! i)
          \<and> stage_envelope h (stage_rectify y3) = Inr y5 \<and> length y5 = length y3
          \<and> (\<not> envelope h \<longrightarrow> y5 = stage_rectify y3)
          \<and> process_emg_channel h x = Inr y5 \<and> length y5 = length x"
    if "pipeline_padlen h < length x"
  proof -
    from process_emg_channel_returns [OF assms that] obtain y1 y2 y3 y5 where
      "stage_highpass h x = Inr y1" "length y1 = length x"
      "stage_notch h y1 = Inr y2" "length y2 = length x"
      "stage_bandpass h y2 = Inr y3" "length y3 = length x"
      "stage_envelope h (stage_rectify y3) = Inr y5" "length y5 = length x"
      "\<not> envelope h \<longrightarrow> y5 = stage_rectify y3"
      "process_emg_channel h x = Inr y5"
      by blast
    then show ?thesis
      by (auto simp: stage_rectify_length stage_rectify_nonneg)
  qed
  have 6: "length (stage_rectify x) = length x" by (rule stage_rectify_length)
  have 7: "\<forall>i < length x. 0 \<le> stage_rectify x ! i" by (simp add: stage_rectify_nonneg)
  have 8: "pipeline_padlen h < length x \<longrightarrow>
         (\<exists>y1 y2 y3 y5.
            stage_highpass h x = Inr y1 \<and> length y1 = length x
          \<and> stage_notch h y1 = Inr y2 \<and> length y2 = length y1
          \<and> stage_bandpass h y2 = Inr y3 \<and> length y3 = length y2
          \<and> length (stage_rectify y3) = length y3
          \<and> (\<forall>i < length y3. 0 \<le> stage_rectify y3 ! i)
          \<and> stage_envelope h (stage_rectify y3) = Inr y5 \<and> length y5 = length y3
          \<and> (\<not> envelope h \<longrightarrow> y5 = stage_rectify y3)
          \<and> process_emg_channel h x = Inr y5 \<and> length y5 = length x)"
    using 5 by blast
  show ?thesis by (intro conjI 1 2 3 4 6 7 8)
qed

theorem pipeline_stages_preserve_length_witness:
  "filters_ok passthrough_handler
   \<and> pipeline_padlen passthrough_handler < length (map real [0..<75])
   \<and> (\<exists>y. process_emg_channel passthrough_handler (map real [0..<75]) = Inr y
          \<and> length y = 75)
   \<and> padlen (hp_b passthrough_handler) (hp_a passthrough_handler) < length short_window
   \<and> (\<exists>y. stage_highpass passthrough_handler short_window = Inr y \<and> length y = 20)
   \<and> \<not> padlen (bp_b passthrough_handler) (bp_a passthrough_handler) < length short_window
   \<and> stage_bandpass passthrough_handler short_window = Inl ValueError"
proof -
  have l: "pipeline_padlen passthrough_handler < length (map real [0..<75])"
    by (simp add: passthrough_padlen)
  from pipeline_stages_preserve_length [OF passthrough_filters_ok, of "map real [0..<75]"] l
  have long: "\<exists>y. process_emg_channel passthrough_handler (map real [0..<75]) = Inr y
          \<and> length y = 75"
    by auto
  have s: "padlen (hp_b passthrough_handler) (hp_a passthrough_handler) < length short_window"
    "\<not> padlen (bp_b passthrough_handler) (bp_a passthrough_handler) < length short_window"
    "length short_window = 20"
    by (simp_all add: padlen_def passthrough_handler_def short_window_def)
  from pipeline_stages_preserve_length [OF passthrough_filters_ok, of short_window] s
  have short: "(\<exists>y. stage_highpass passthrough_handler short_window = Inr y \<and> length y = 20)
      \<and> stage_bandpass passthrough_handler short_window = Inl ValueError"
    by auto
  from passthrough_filters_ok l long s(1,2) short show ?thesis by blast
qed

section \<open>Accumulation and filtering passes\<close>

lemma handler_wf_buffer:
  assumes "handler_wf h" and "c < NUM_SENSORS h"
  shows "maxlen (emg_processing_buffers h ! c) = ACCUMULATION_SIZE h"
    and "length (items (emg_processing_buffers h ! c)) < ACCUMULATION_SIZE h"
    and "c < length (emg_processing_buffers h)"
    and "c < length (muscle_labels h)"
  using assms by (auto simp: handler_wf_def list_all_length)

lemma process_emg_channel_buffers [simp]:
  "process_emg_channel (h\<lparr>emg_processing_buffers := b\<rparr>) x = process_emg_channel h x"
  by (simp add: process_emg_channel_def stage_highpass_def stage_notch_def stage_bandpass_def
      stage_envelope_def split: sum.splits)

lemma accumulated_length:
  "length (accumulated n d xs) = min n (length d + length xs)"
  by (auto simp: accumulated_def)

lemma process_channel_pass:
  assumes wf: "handler_wf h" and c: "c < NUM_SENSORS h"
    and full: "ACCUMULATION_SIZE h \<le> length (items (emg_processing_buffers h ! c))
                 + length (slice_from_step c (NUM_SENSORS h) raw)"
  shows "\<exists>y. process_emg_channel h
               (accumulated (ACCUMULATION_SIZE h) (items (emg_processing_buffers h ! c))
                  (slice_from_step c (NUM_SENSORS h) raw)) = Inr y
           \<and> length y = ACCUMULATION_SIZE h
           \<and> process_channel h raw c =
               (None,
                h\<lparr>output_queue :=
                     drop (Suc (length (output_queue h)) - OUTPUT_QUEUE_MAXSIZE)
                       (output_queue h @
                          [\<lparr>channel = c, muscle_label = muscle_labels h ! c, samples = y\<rparr>]),
                   emg_processing_buffers :=
                     (emg_processing_buffers h)
                       [c := \<lparr>maxlen = ACCUMULATION_SIZE h, items = []\<rparr>]\<rparr>,
                [(c, accumulated (ACCUMULATION_SIZE h) (items (emg_processing_buffers h ! c))
                       (slice_from_step c (NUM_SENSORS h) raw))])"
proof -
  let ?A = "ACCUMULATION_SIZE h"
  let ?buf = "emg_processing_buffers h ! c"
  let ?xs = "slice_from_step c (NUM_SENSORS h) raw"
  let ?e = "accumulated ?A (items ?buf) ?xs"
  note b = handler_wf_buffer [OF wf c]
  have ext: "deque_extend ?A (items ?buf) ?xs = ?e"
    using b(2) by (simp add: deque_extend_eq accumulated_def)
  have upd: "?buf\<lparr>items := v\<rparr> = \<lparr>maxlen = ?A, items = v\<rparr>" for v
    using b(1) by (cases ?buf) simp
  have len: "length ?e = ?A" using full by (simp add: accumulated_length)
  from wf have "filters_ok h" "pipeline_padlen h < length ?e"
    by (simp_all add: handler_wf_def len)
  from process_emg_channel_returns [OF this] obtain y where
    y: "process_emg_channel h ?e = Inr y" "length y = ?A"
    using len by auto
  from wf have q: "length (output_queue h) \<le> OUTPUT_QUEUE_MAXSIZE"
    by (simp add: handler_wf_def)
  have put: "output_queue_put OUTPUT_QUEUE_MAXSIZE (output_queue h) v
      = Inr (drop (Suc (length (output_queue h)) - OUTPUT_QUEUE_MAXSIZE) (output_queue h @ [v]))"
    for v using q by (intro output_queue_put_eq) (simp_all add: OUTPUT_QUEUE_MAXSIZE_def)
  have "process_channel h raw c =
               (None,
                h\<lparr>output_queue :=
                     drop (Suc (length (output_queue h)) - OUTPUT_QUEUE_MAXSIZE)
                       (output_queue h @
                          [\<lparr>channel = c, muscle_label = muscle_labels h ! c, samples = y\<rparr>]),
                   emg_processing_buffers :=
                     (emg_processing_buffers h) [c := \<lparr>maxlen = ?A, items = []\<rparr>]\<rparr>,
                [(c, ?e)])"
    using b(1,3,4) by (simp add: process_channel_def Let_def ext len y put upd)
  with y show ?thesis by blast
qed

lemma process_channel_no_pass:
  assumes wf: "handler_wf h" and c: "c < NUM_SENSORS h"
    and short: "length (items (emg_processing_buffers h ! c))
                 + length (slice_from_step c (NUM_SENSORS h) raw) < ACCUMULATION_SIZE h"
  shows "process_channel h raw c =
           (None,
            h\<lparr>emg_processing_buffers :=
                 (emg_processing_buffers h)
                   [c := \<lparr>maxlen = ACCUMULATION_SIZE h,
                           items = items (emg_processing_buffers h ! c)
                                     @ slice_from_step c (NUM_SENSORS h) raw\<rparr>]\<rparr>,
            [])"
proof -
  let ?A = "ACCUMULATION_SIZE h"
  let ?buf = "emg_processing_buffers h ! c"
  let ?xs = "slice_from_step c (NUM_SENSORS h) raw"
  note b = handler_wf_buffer [OF wf c]
  have ext: "deque_extend ?A (items ?buf) ?xs = items ?buf @ ?xs"
    using b(2) short by (simp add: deque_extend_eq)
  have upd: "?buf\<lparr>items := v\<rparr> = \<lparr>maxlen = ?A, items = v\<rparr>" for v
    using b(1) by (cases ?buf) simp
  show ?thesis
    using b(1,3) short by (simp add: process_channel_def Let_def ext upd)
qed

lemma same_setup_iff:
  "same_setup h h' \<longleftrightarrow> (\<exists>q b. h' = h\<lparr>output_queue := q, emg_processing_buffers := b\<rparr>)"
proof
  assume "same_setup h h'"
  then show "\<exists>q b. h' = h\<lparr>output_queue := q, emg_processing_buffers := b\<rparr>"
    unfolding same_setup_def by blast
next
  assume "\<exists>q b. h' = h\<lparr>output_queue := q, emg_processing_buffers := b\<rparr>"
  then obtain q b where "h' = h\<lparr>output_queue := q, emg_processing_buffers := b\<rparr>" by blast
  then show "same_setup h h'" by (simp add: same_setup_def)
qed

lemma same_setup_refl: "same_setup h h"
  by (simp add: same_setup_def)

lemma same_setup_trans:
  assumes "same_setup h h1" and "same_setup h1 h2"
  shows "same_setup h h2"
proof -
  from assms(1) obtain q b where 1: "h1 = h\<lparr>output_queue := q, emg_processing_buffers := b\<rparr>"
    unfolding same_setup_iff by blast
  from assms(2) obtain q' b' where "h2 = h1\<lparr>output_queue := q', emg_processing_buffers := b'\<rparr>"
    unfolding same_setup_iff by blast
  then have "h2 = h\<lparr>output_queue := q', emg_processing_buffers := b'\<rparr>"
    by (simp add: 1)
  then show ?thesis unfolding same_setup_iff by blast
qed

lemma same_setup_fields:
  assumes "same_setup h h'"
  shows "NUM_SENSORS h' = NUM_SENSORS h" and "ACCUMULATION_SIZE h' = ACCUMULATION_SIZE h"
    and "rate_adjusted_bytes h' = rate_adjusted_bytes h"
    and "muscle_labels h' = muscle_labels h"
    and "SAMPLING_RATE h' = SAMPLING_RATE h"
    and "filters_ok h' = filters_ok h" and "pipeline_padlen h' = pipeline_padlen h"
    and "process_emg_channel h' x = process_emg_channel h x"
proof -
  from assms obtain q b where 1: "h' = h\<lparr>output_queue := q, emg_processing_buffers := b\<rparr>"
    unfolding same_setup_iff by blast
  show "NUM_SENSORS h' = NUM_SENSORS h" and "ACCUMULATION_SIZE h' = ACCUMULATION_SIZE h"
    and "rate_adjusted_bytes h' = rate_adjusted_bytes h"
    and "muscle_labels h' = muscle_labels h"
    and "SAMPLING_RATE h' = SAMPLING_RATE h"
    by (simp_all add: 1)
  show "filters_ok h' = filters_ok h" by (simp add: 1 filters_ok_def)
  show "pipeline_padlen h' = pipeline_padlen h" by (simp add: 1 pipeline_padlen_def)
  show "process_emg_channel h' x = process_emg_channel h x"
    by (simp add: 1 process_emg_channel_def stage_highpass_def stage_notch_def
        stage_bandpass_def stage_envelope_def split: sum.splits)
qed

lemma process_channel_step:
  assumes wf: "handler_wf h" and c: "c < NUM_SENSORS h"
  shows "\<exists>h'. process_channel h raw c =
            (None, h', step_passes (ACCUMULATION_SIZE h) c (items (emg_processing_buffers h ! c))
                         (slice_from_step c (NUM_SENSORS h) raw))
          \<and> handler_wf h' \<and> same_setup h h'
          \<and> emg_processing_buffers h' =
              (emg_processing_buffers h)
                [c := \<lparr>maxlen = ACCUMULATION_SIZE h,
                        items = step_items (ACCUMULATION_SIZE h)
                                  (items (emg_processing_buffers h ! c))
                                  (slice_from_step c (NUM_SENSORS h) raw)\<rparr>]"
proof (cases "ACCUMULATION_SIZE h \<le> length (items (emg_processing_buffers h ! c))
                 + length (slice_from_step c (NUM_SENSORS h) raw)")
  case True
  from process_channel_pass [OF wf c True] obtain y where
    p: "process_channel h raw c =
               (None,
                h\<lparr>output_queue :=
                     drop (Suc (length (output_queue h)) - OUTPUT_QUEUE_MAXSIZE)
                       (output_queue h @
                          [\<lparr>channel = c, muscle_label = muscle_labels h ! c, samples = y\<rparr>]),
                   emg_processing_buffers :=
                     (emg_processing_buffers h)
                       [c := \<lparr>maxlen = ACCUMULATION_SIZE h, items = []\<rparr>]\<rparr>,
                [(c, accumulated (ACCUMULATION_SIZE h) (items (emg_processing_buffers h ! c))
                       (slice_from_step c (NUM_SENSORS h) raw))])"
    by blast
  let ?h' = "h\<lparr>output_queue :=
                     drop (Suc (length (output_queue h)) - OUTPUT_QUEUE_MAXSIZE)
                       (output_queue h @
                          [\<lparr>channel = c, muscle_label = muscle_labels h ! c, samples = y\<rparr>]),
                   emg_processing_buffers :=
                     (emg_processing_buffers h)
                       [c := \<lparr>maxlen = ACCUMULATION_SIZE h, items = []\<rparr>]\<rparr>"
  from wf have pos: "0 < ACCUMULATION_SIZE h" by (simp add: handler_wf_def)
  have "handler_wf ?h'"
    using wf pos c
    by (auto simp: handler_wf_def filters_ok_def pipeline_padlen_def list_all_length nth_list_update)
  moreover have "same_setup h ?h'" by (simp add: same_setup_def)
  ultimately show ?thesis
    using True by (simp add: p step_passes_def step_items_def)
next
  case False
  then have short: "length (items (emg_processing_buffers h ! c))
                 + length (slice_from_step c (NUM_SENSORS h) raw) < ACCUMULATION_SIZE h"
    by simp
  let ?h' = "h\<lparr>emg_processing_buffers :=
                 (emg_processing_buffers h)
                   [c := \<lparr>maxlen = ACCUMULATION_SIZE h,
                           items = items (emg_processing_buffers h ! c)
                                     @ slice_from_step c (NUM_SENSORS h) raw\<rparr>]\<rparr>"
  have "handler_wf ?h'"
    using wf short c
    by (auto simp: handler_wf_def filters_ok_def pipeline_padlen_def list_all_length nth_list_update)
  moreover have "same_setup h ?h'" by (simp add: same_setup_def)
  ultimately show ?thesis
    using False by (simp add: process_channel_no_pass [OF wf c short] step_passes_def step_items_def)
qed

lemma channel_loop_eq:
  assumes "handler_wf h" and "distinct cs" and "\<forall>c \<in> set cs. c < NUM_SENSORS h"
  shows "\<exists>h'. channel_loop h raw cs =
            (h', concat (map (\<lambda>c. step_passes (ACCUMULATION_SIZE h) c
                                    (items (emg_processing_buffers h ! c))
                                    (slice_from_step c (NUM_SENSORS h) raw)) cs))
          \<and> handler_wf h' \<and> same_setup h h'
          \<and> length (emg_processing_buffers h') = NUM_SENSORS h
          \<and> (\<forall>c < NUM_SENSORS h.
                emg_processing_buffers h' ! c =
                  (if c \<in> set cs
                   then \<lparr>maxlen = ACCUMULATION_SIZE h,
                         items = step_items (ACCUMULATION_SIZE h)
                                   (items (emg_processing_buffers h ! c))
                                   (slice_from_step c (NUM_SENSORS h) raw)\<rparr>
                   else emg_processing_buffers h ! c))"
  using assms
proof (induction cs arbitrary: h)
  case Nil
  then show ?case by (simp add: same_setup_refl handler_wf_def)
next
  case (Cons c cs)
  let ?N = "NUM_SENSORS h" and ?A = "ACCUMULATION_SIZE h"
  let ?p = "\<lambda>h c. step_passes (ACCUMULATION_SIZE h) c (items (emg_processing_buffers h ! c))
                    (slice_from_step c (NUM_SENSORS h) raw)"
  let ?b = "\<lambda>h c. \<lparr>maxlen = ACCUMULATION_SIZE h,
                    items = step_items (ACCUMULATION_SIZE h) (items (emg_processing_buffers h ! c))
                              (slice_from_step c (NUM_SENSORS h) raw)\<rparr>"
  from Cons.prems have c: "c < ?N" and cs: "\<forall>c' \<in> set cs. c' < ?N"
    and d: "distinct cs" and notin: "c \<notin> set cs"
    by simp_all
  from Cons.prems(1) have len: "length (emg_processing_buffers h) = ?N"
    by (simp add: handler_wf_def)
  from process_channel_step [OF Cons.prems(1) c, of raw] obtain h1 where
    1: "process_channel h raw c = (None, h1, ?p h c)" "handler_wf h1" "same_setup h h1"
       "emg_processing_buffers h1 = (emg_processing_buffers h)[c := ?b h c]"
    by blast
  note f = same_setup_fields(1,2) [OF 1(3)]
  from cs have cs1: "\<forall>c' \<in> set cs. c' < NUM_SENSORS h1" by (simp add: f)
  from Cons.IH [OF 1(2) d cs1] obtain h2 where
    2: "channel_loop h1 raw cs = (h2, concat (map (?p h1) cs))" "handler_wf h2" "same_setup h1 h2"
       "length (emg_processing_buffers h2) = NUM_SENSORS h1"
       "\<forall>c' < NUM_SENSORS h1. emg_processing_buffers h2 ! c' =
           (if c' \<in> set cs then ?b h1 c' else emg_processing_buffers h1 ! c')"
    by blast
  have same: "emg_processing_buffers h1 ! c' = emg_processing_buffers h ! c'" if "c' \<in> set cs" for c'
  proof -
    from that notin have "c \<noteq> c'" by blast
    then show ?thesis by (simp add: 1(4))
  qed
  have p: "map (?p h1) cs = map (?p h) cs"
    by (rule map_cong) (simp_all add: f same)
  have loop: "channel_loop h raw (c # cs) = (h2, concat (map (?p h) (c # cs)))"
    by (simp add: 1(1) 2(1) p)
  have bufs: "emg_processing_buffers h2 ! c' =
      (if c' \<in> set (c # cs) then ?b h c' else emg_processing_buffers h ! c')" if "c' < ?N" for c'
  proof (cases "c' \<in> set cs")
    case True
    with 2(5) that have "emg_processing_buffers h2 ! c' = ?b h1 c'" by (simp add: f)
    with True show ?thesis by (simp add: f same)
  next
    case False
    with 2(5) that have "emg_processing_buffers h2 ! c' = emg_processing_buffers h1 ! c'"
      by (simp add: f)
    with False that len show ?thesis by (auto simp: 1(4))
  qed
  from loop 2(2) same_setup_trans [OF 1(3) 2(3)] 2(4) bufs show ?case
    by (auto simp: f simp del: set_simps list.map concat.simps)
qed


lemma process_raw_data_eq:
  assumes "handler_wf h"
  shows "\<exists>h'. process_raw_data h raw =
            (h', concat (map (\<lambda>c. step_passes (ACCUMULATION_SIZE h) c
                                    (items (emg_processing_buffers h ! c))
                                    (slice_from_step c (NUM_SENSORS h) raw)) [0..<NUM_SENSORS h]))
          \<and> handler_wf h' \<and> same_setup h h'
          \<and> emg_processing_buffers h' =
              map (\<lambda>c. \<lparr>maxlen = ACCUMULATION_SIZE h,
                         items = step_items (ACCUMULATION_SIZE h)
                                   (items (emg_processing_buffers h ! c))
                                   (slice_from_step c (NUM_SENSORS h) raw)\<rparr>)
                [0..<NUM_SENSORS h]"
proof -
  have "\<forall>c \<in> set [0..<NUM_SENSORS h]. c < NUM_SENSORS h" by simp
  from channel_loop_eq [OF assms distinct_upt this, of raw] obtain h' where
    1: "channel_loop h raw [0..<NUM_SENSORS h] =
            (h', concat (map (\<lambda>c. step_passes (ACCUMULATION_SIZE h) c
                                    (items (emg_processing_buffers h ! c))
                                    (slice_from_step c (NUM_SENSORS h) raw)) [0..<NUM_SENSORS h]))"
       "handler_wf h'" "same_setup h h'"
       "length (emg_processing_buffers h') = NUM_SENSORS h"
       "\<forall>c < NUM_SENSORS h.
                emg_processing_buffers h' ! c =
                  (if c \<in> set [0..<NUM_SENSORS h]
                   then \<lparr>maxlen = ACCUMULATION_SIZE h,
                         items = step_items (ACCUMULATION_SIZE h)
                                   (items (emg_processing_buffers h ! c))
                                   (slice_from_step c (NUM_SENSORS h) raw)\<rparr>
                   else emg_processing_buffers h ! c)"
    by blast
  have "emg_processing_buffers h' =
              map (\<lambda>c. \<lparr>maxlen = ACCUMULATION_SIZE h,
                         items = step_items (ACCUMULATION_SIZE h)
                                   (items (emg_processing_buffers h ! c))
                                   (slice_from_step c (NUM_SENSORS h) raw)\<rparr>)
                [0..<NUM_SENSORS h]"
    using 1(4,5) by (intro nth_equalityI) simp_all
  with 1(1,2,3) show ?thesis by (simp add: process_raw_data_def)
qed


lemma slice_from_step_length:
  assumes "c < n" and "length xs = n * k"
  shows "length (slice_from_step c n xs) = k"
proof -
  let ?P = "\<lambda>i. c \<le> i \<and> (i - c) mod n = 0"
  have "{i. i < n * k \<and> ?P i} = (\<lambda>j. c + n * j) ` {..<k}"
  proof (intro set_eqI iffI)
    fix i assume "i \<in> {i. i < n * k \<and> ?P i}"
    then have i: "i < n * k" "c \<le> i" "(i - c) mod n = 0" by simp_all
    let ?j = "(i - c) div n"
    from i(3) have nj: "n * ?j = i - c" by (simp add: mod_0_imp_dvd)
    with i(2) have eq: "i = c + n * ?j" by simp
    from nj have "n * ?j \<le> i" by simp
    from this i(1) have "n * ?j < n * k" by (rule le_less_trans)
    then have "?j < k" by simp
    with eq show "i \<in> (\<lambda>j. c + n * j) ` {..<k}" by blast
  next
    fix i assume "i \<in> (\<lambda>j. c + n * j) ` {..<k}"
    then obtain j where j: "j < k" "i = c + n * j" by blast
    from j(1) have "n * Suc j \<le> n * k" by (simp only: mult_le_mono2 Suc_leI)
    with assms(1) j(2) have "i < n * k" by simp
    with j(2) show "i \<in> {i. i < n * k \<and> ?P i}" by simp
  qed
  moreover have "inj_on (\<lambda>j. c + n * j) {..<k}"
    using assms(1) by (auto simp: inj_on_def)
  ultimately have "card {i. i < n * k \<and> ?P i} = k"
    by (simp add: card_image)
  then show ?thesis
    using assms(2) by (simp add: slice_from_step_def length_filter_conv_card cong: conj_cong)
qed

lemma passthrough_handler_wf: "handler_wf passthrough_handler"
  by (simp add: handler_wf_def passthrough_filters_ok passthrough_padlen)
    (simp add: passthrough_handler_def default_muscle_labels_def OUTPUT_QUEUE_MAXSIZE_def
      list_all_iff)

lemma nearly_full_handler_wf: "handler_wf nearly_full_handler"
  using passthrough_filters_ok passthrough_padlen
  by (simp add: handler_wf_def nearly_full_handler_def filters_ok_def pipeline_padlen_def)
    (simp add: passthrough_handler_def default_muscle_labels_def OUTPUT_QUEUE_MAXSIZE_def
      list_all_iff)

lemma ramp_frame_slice: "c < 16 \<Longrightarrow> length (slice_from_step c 16 ramp_frame) = 27"
  by (rule slice_from_step_length) (simp_all add: ramp_frame_def)



section \<open>Designing the filters and negotiating the rate\<close>

lemma sigproc_ok_butter:
  assumes "sigproc_ok sp" and "0 < n" and "\<forall>w \<in> set Wn. 0 < w \<and> w < 1"
  shows "\<exists>b a. butter sp n Wn bt = Inr (b, a) \<and> length b = butter_taps n bt
              \<and> length a = butter_taps n bt \<and> coeffs_ok b a"
  using assms unfolding sigproc_ok_def by blast

lemma sigproc_ok_iirnotch:
  assumes "sigproc_ok sp" and "0 < w0" and "w0 < 1"
  shows "\<exists>b a. iirnotch sp w0 Q = Inr (b, a) \<and> length b = 3 \<and> length a = 3 \<and> coeffs_ok b a"
  using assms unfolding sigproc_ok_def by blast

lemma design_filters_ok:
  assumes sp: "sigproc_ok sp" and fs: "900 < SAMPLING_RATE h"
  shows "\<exists>b1 a1 b2 a2 b3 a3 b4 a4.
      design_filters sp h =
        (None, h\<lparr>hp_b := b1, hp_a := a1, notch_b := b2, notch_a := a2,
                  bp_b := b3, bp_a := a3, lp_b := b4, lp_a := a4\<rparr>)
      \<and> butter sp 2 [0.5 / (0.5 * SAMPLING_RATE h)] Highpass = Inr (b1, a1)
      \<and> iirnotch sp (60 / (0.5 * SAMPLING_RATE h)) 30 = Inr (b2, a2)
      \<and> butter sp 4 [20 / (0.5 * SAMPLING_RATE h), 450 / (0.5 * SAMPLING_RATE h)] Bandpass
          = Inr (b3, a3)
      \<and> butter sp 2 [10 / (0.5 * SAMPLING_RATE h)] Lowpass = Inr (b4, a4)
      \<and> coeffs_ok b1 a1 \<and> coeffs_ok b2 a2 \<and> coeffs_ok b3 a3 \<and> coeffs_ok b4 a4
      \<and> padlen b1 a1 = 9 \<and> padlen b2 a2 = 9 \<and> padlen b3 a3 = 27 \<and> padlen b4 a4 = 9"
proof -
  let ?fs = "SAMPLING_RATE h"
  from fs have nz: "0.5 * ?fs \<noteq> 0" by simp
  from fs have w1: "\<forall>w \<in> set [0.5 / (0.5 * ?fs)]. 0 < w \<and> w < 1" by simp
  from fs have w2: "0 < 60 / (0.5 * ?fs)" "60 / (0.5 * ?fs) < 1" by simp_all
  from fs have w3: "\<forall>w \<in> set [20 / (0.5 * ?fs), 450 / (0.5 * ?fs)]. 0 < w \<and> w < 1" by simp
  from fs have w4: "\<forall>w \<in> set [10 / (0.5 * ?fs)]. 0 < w \<and> w < 1" by simp
  from sigproc_ok_butter [OF sp _ w1, of 2 Highpass] obtain b1 a1 where
    1: "butter sp 2 [0.5 / (0.5 * ?fs)] Highpass = Inr (b1, a1)" "length b1 = 3" "length a1 = 3"
       "coeffs_ok b1 a1"
    by auto
  from sigproc_ok_iirnotch [OF sp w2, of 30] obtain b2 a2 where
    2: "iirnotch sp (60 / (0.5 * ?fs)) 30 = Inr (b2, a2)" "length b2 = 3" "length a2 = 3"
       "coeffs_ok b2 a2"
    by auto
  from sigproc_ok_butter [OF sp _ w3, of 4 Bandpass] obtain b3 a3 where
    3: "butter sp 4 [20 / (0.5 * ?fs), 450 / (0.5 * ?fs)] Bandpass = Inr (b3, a3)"
       "length b3 = 9" "length a3 = 9" "coeffs_ok b3 a3"
    by auto
  from sigproc_ok_butter [OF sp _ w4, of 2 Lowpass] obtain b4 a4 where
    4: "butter sp 2 [10 / (0.5 * ?fs)] Lowpass = Inr (b4, a4)" "length b4 = 3" "length a4 = 3"
       "coeffs_ok b4 a4"
    by auto
  have "design_filters sp h =
        (None, h\<lparr>hp_b := b1, hp_a := a1, notch_b := b2, notch_a := a2,
                  bp_b := b3, bp_a := a3, lp_b := b4, lp_a := a4\<rparr>)"
    by (simp only: design_filters_def Let_def nz if_False 1(1) 2(1) 3(1) 4(1) sum.case prod.case)
  moreover have "padlen b1 a1 = 9" "padlen b2 a2 = 9" "padlen b3 a3 = 27" "padlen b4 a4 = 9"
    by (simp_all add: padlen_def 1 2 3 4)
  ultimately show ?thesis using 1 2 3 4 by blast
qed

lemma handler_init_with_ok:
  assumes sp: "sigproc_ok sp" and fs: "900 < rate"
  shows "\<exists>h. handler_init_with acc sp n rate env = Inr h
      \<and> designed_for sp rate h \<and> filters_ok h \<and> pipeline_padlen h = 27
      \<and> NUM_SENSORS h = n \<and> ACCUMULATION_SIZE h = acc \<and> SAMPLING_RATE h = rate
      \<and> envelope h = env \<and> rate_adjusted_bytes h = 1728
      \<and> muscle_labels h = default_muscle_labels \<and> output_queue h = []
      \<and> emg_processing_buffers h = replicate n \<lparr>maxlen = acc, items = []\<rparr>"
proof -
  let ?h0 = "\<lparr>NUM_SENSORS = n, envelope = env, SAMPLING_RATE = rate,
               muscle_labels = default_muscle_labels, output_queue = [],
               ACCUMULATION_SIZE = acc,
               emg_processing_buffers = replicate n \<lparr>maxlen = acc, items = []\<rparr>,
               streaming = False, rate_adjusted_bytes = 1728,
               hp_b = [], hp_a = [], notch_b = [], notch_a = [],
               bp_b = [], bp_a = [], lp_b = [], lp_a = []\<rparr>"
  from fs have "900 < SAMPLING_RATE ?h0" by simp
  from design_filters_ok [OF sp this] obtain b1 a1 b2 a2 b3 a3 b4 a4 where
    d: "design_filters sp ?h0 =
        (None, ?h0\<lparr>hp_b := b1, hp_a := a1, notch_b := b2, notch_a := a2,
                  bp_b := b3, bp_a := a3, lp_b := b4, lp_a := a4\<rparr>)"
    and c: "butter sp 2 [0.5 / (0.5 * SAMPLING_RATE ?h0)] Highpass = Inr (b1, a1)"
      "iirnotch sp (60 / (0.5 * SAMPLING_RATE ?h0)) 30 = Inr (b2, a2)"
      "butter sp 4 [20 / (0.5 * SAMPLING_RATE ?h0), 450 / (0.5 * SAMPLING_RATE ?h0)] Bandpass
          = Inr (b3, a3)"
      "butter sp 2 [10 / (0.5 * SAMPLING_RATE ?h0)] Lowpass = Inr (b4, a4)"
    and ok: "coeffs_ok b1 a1" "coeffs_ok b2 a2" "coeffs_ok b3 a3" "coeffs_ok b4 a4"
    and p: "padlen b1 a1 = 9" "padlen b2 a2 = 9" "padlen b3 a3 = 27" "padlen b4 a4 = 9"
    by blast
  let ?h = "?h0\<lparr>hp_b := b1, hp_a := a1, notch_b := b2, notch_a := a2,
                  bp_b := b3, bp_a := a3, lp_b := b4, lp_a := a4\<rparr>"
  have "handler_init_with acc sp n rate env = Inr ?h"
    by (simp only: handler_init_with_def Let_def d prod.case option.case)
  moreover from c have "designed_for sp rate ?h"
    by (simp add: designed_for_def)
  moreover have "filters_ok ?h" using ok by (simp add: filters_ok_def)
  moreover have "pipeline_padlen ?h = 27" using p by (simp add: pipeline_padlen_def)
  ultimately show ?thesis by (intro exI [of _ ?h]) simp
qed

lemma handler_init_wf:
  assumes "sigproc_ok sp" and "900 < rate" and "n \<le> 16"
  shows "\<exists>h. handler_init sp n rate env = Inr h \<and> handler_wf h \<and> designed_for sp rate h
      \<and> NUM_SENSORS h = n \<and> ACCUMULATION_SIZE h = 75 \<and> SAMPLING_RATE h = rate
      \<and> rate_adjusted_bytes h = 1728"
proof -
  from handler_init_with_ok [OF assms(1,2), of 75 n env] obtain h where
    h: "handler_init_with 75 sp n rate env = Inr h" "designed_for sp rate h" "filters_ok h"
      "pipeline_padlen h = 27" "NUM_SENSORS h = n" "ACCUMULATION_SIZE h = 75"
      "SAMPLING_RATE h = rate" "rate_adjusted_bytes h = 1728"
      "muscle_labels h = default_muscle_labels" "output_queue h = []"
      "emg_processing_buffers h = replicate n \<lparr>maxlen = 75, items = []\<rparr>"
    by blast
  have "handler_wf h"
    using assms(3) by (simp add: handler_wf_def h default_muscle_labels_def list_all_iff)
  with h show ?thesis by (simp add: handler_init_def)
qed

lemma sublist_dropWhile:
  assumes "needle \<noteq> []" and "\<not> P (hd needle)"
  shows "sublist needle (dropWhile P s) \<longleftrightarrow> sublist needle s"
proof (induction s)
  case Nil
  then show ?case by simp
next
  case (Cons c s)
  show ?case
  proof (cases "P c")
    case True
    from assms obtain n ns where n: "needle = n # ns" "\<not> P n" by (cases needle) auto
    with True have "\<not> prefix needle (c # s)" by auto
    then show ?thesis using True Cons.IH by (simp add: sublist_Cons_right)
  next
    case False
    then show ?thesis by simp
  qed
qed

lemma sublist_strip:
  assumes "needle \<noteq> []" and "\<not> py_isspace (hd needle)" and "\<not> py_isspace (last needle)"
  shows "sublist needle (strip s) \<longleftrightarrow> sublist needle s"
proof -
  from assms have r: "rev needle \<noteq> []" "\<not> py_isspace (hd (rev needle))"
    by (simp_all add: hd_rev)
  have "sublist needle (strip s)
      \<longleftrightarrow> sublist (rev needle) (dropWhile py_isspace (rev (dropWhile py_isspace s)))"
    unfolding strip_def by (simp only: sublist_rev_right)
  also have "\<dots> \<longleftrightarrow> sublist (rev needle) (rev (dropWhile py_isspace s))"
    using r by (rule sublist_dropWhile)
  also have "\<dots> \<longleftrightarrow> sublist needle (dropWhile py_isspace s)" by simp
  also have "\<dots> \<longleftrightarrow> sublist needle s" using assms(1,2) by (rule sublist_dropWhile)
  finally show ?thesis .
qed

lemma contains_1925_strip: "str_contains ''1925'' (strip s) = str_contains ''1925'' s"
  unfolding str_contains_def by (rule sublist_strip) (simp_all add: py_isspace_def)

lemma passthrough_coeffs_ok:
  "2 \<le> taps \<Longrightarrow> coeffs_ok (fst (passthrough_coeffs taps)) (snd (passthrough_coeffs taps))"
  "0 < taps \<Longrightarrow> length (fst (passthrough_coeffs taps)) = taps"
  "0 < taps \<Longrightarrow> length (snd (passthrough_coeffs taps)) = taps"
  by (simp_all add: passthrough_coeffs_def coeffs_ok_def sum_list_zeros)

lemma passthrough_sigproc_ok: "sigproc_ok passthrough_sigproc"
proof -
  have b: "\<exists>b a. butter passthrough_sigproc n Wn bt = Inr (b, a) \<and> length b = butter_taps n bt
              \<and> length a = butter_taps n bt \<and> coeffs_ok b a"
    if "0 < n" "\<forall>w \<in> set Wn. 0 < w \<and> w < 1" for n Wn bt
  proof -
    from that(1) have t: "2 \<le> butter_taps n bt" "0 < butter_taps n bt" by (cases bt; simp)+
    from that(2) have "butter passthrough_sigproc n Wn bt = Inr (passthrough_coeffs (butter_taps n bt))"
      by (simp add: passthrough_sigproc_def list_all_iff)
    with passthrough_coeffs_ok [of "butter_taps n bt"] t show ?thesis
      by (cases "passthrough_coeffs (butter_taps n bt)") simp
  qed
  have n: "\<exists>b a. iirnotch passthrough_sigproc w0 Q = Inr (b, a) \<and> length b = 3 \<and> length a = 3
              \<and> coeffs_ok b a"
    if "0 < w0" "w0 < 1" for w0 Q
  proof -
    from that have "iirnotch passthrough_sigproc w0 Q = Inr (passthrough_coeffs 3)"
      by (simp add: passthrough_sigproc_def)
    with passthrough_coeffs_ok [of 3] show ?thesis
      by (cases "passthrough_coeffs 3") simp
  qed
  from b n show ?thesis unfolding sigproc_ok_def by blast
qed

lemma designed_for_bytes [simp]:
  "designed_for sp r (h\<lparr>rate_adjusted_bytes := v\<rparr>) = designed_for sp r h"
  by (simp add: designed_for_def)

lemma passthrough_designed: "designed_for passthrough_sigproc 2000 passthrough_handler"
  by (simp add: designed_for_def passthrough_sigproc_def passthrough_coeffs_def
      passthrough_handler_def numeral_eq_Suc)

lemma designed_filters:
  assumes sp: "sigproc_ok sp" and r: "900 < rate" and d: "designed_for sp rate h"
  shows "filters_ok h" and "pipeline_padlen h = 27" and "padlen (bp_b h) (bp_a h) = 27"
proof -
  from r have w1: "\<forall>w \<in> set [0.5 / (0.5 * rate)]. 0 < w \<and> w < 1" by simp
  from r have w2: "0 < 60 / (0.5 * rate)" "60 / (0.5 * rate) < 1" by simp_all
  from r have w3: "\<forall>w \<in> set [20 / (0.5 * rate), 450 / (0.5 * rate)]. 0 < w \<and> w < 1" by simp
  from r have w4: "\<forall>w \<in> set [10 / (0.5 * rate)]. 0 < w \<and> w < 1" by simp
  from d have e: "butter sp 2 [0.5 / (0.5 * rate)] Highpass = Inr (hp_b h, hp_a h)"
    "iirnotch sp (60 / (0.5 * rate)) 30 = Inr (notch_b h, notch_a h)"
    "butter sp 4 [20 / (0.5 * rate), 450 / (0.5 * rate)] Bandpass = Inr (bp_b h, bp_a h)"
    "butter sp 2 [10 / (0.5 * rate)] Lowpass = Inr (lp_b h, lp_a h)"
    unfolding designed_for_def by blast+
  from sigproc_ok_butter [OF sp _ w1, of 2 Highpass] e(1)
  have 1: "length (hp_b h) = 3" "length (hp_a h) = 3" "coeffs_ok (hp_b h) (hp_a h)" by auto
  from sigproc_ok_iirnotch [OF sp w2, of 30] e(2)
  have 2: "length (notch_b h) = 3" "length (notch_a h) = 3" "coeffs_ok (notch_b h) (notch_a h)"
    by auto
  from sigproc_ok_butter [OF sp _ w3, of 4 Bandpass] e(3)
  have 3: "length (bp_b h) = 9" "length (bp_a h) = 9" "coeffs_ok (bp_b h) (bp_a h)" by auto
  from sigproc_ok_butter [OF sp _ w4, of 2 Lowpass] e(4)
  have 4: "length (lp_b h) = 3" "length (lp_a h) = 3" "coeffs_ok (lp_b h) (lp_a h)" by auto
  show "filters_ok h" by (simp add: filters_ok_def 1 2 3 4)
  show "pipeline_padlen h = 27" by (simp add: pipeline_padlen_def padlen_def 1 2 3 4)
  show "padlen (bp_b h) (bp_a h) = 27" by (simp add: padlen_def 3)
qed

lemma configure_system_ok:
  assumes "sigproc_ok sp" and "designed_for sp (SAMPLING_RATE h) h"
    and "rate_command_sent io" and "rate_query_sent io" and "rate_reply io = Some reply"
  shows "\<exists>h'. configure_system sp io h = (True, h')
      \<and> (if str_contains ''1925'' reply
          then rate_adjusted_bytes h' = 1664 \<and> SAMPLING_RATE h' = 1925.926
          else rate_adjusted_bytes h' = 1728 \<and> SAMPLING_RATE h' = 2000)
      \<and> designed_for sp (SAMPLING_RATE h') h'
      \<and> NUM_SENSORS h' = NUM_SENSORS h \<and> ACCUMULATION_SIZE h' = ACCUMULATION_SIZE h
      \<and> emg_processing_buffers h' = emg_processing_buffers h
      \<and> output_queue h' = output_queue h \<and> muscle_labels h' = muscle_labels h"
proof -
  define actual :: real where "actual = (if str_contains ''1925'' reply then 1925.926 else 2000)"
  define bytes :: nat where "bytes = (if str_contains ''1925'' reply then 1664 else 1728)"
  let ?h1 = "h\<lparr>rate_adjusted_bytes := bytes\<rparr>"
  have big: "900 < actual" by (simp add: actual_def)
  have conf: "configure_system sp io h =
      (if actual \<noteq> SAMPLING_RATE h then
         (case design_filters sp (?h1\<lparr>SAMPLING_RATE := actual\<rparr>) of
            (Some e, h2) \<Rightarrow> (False, h2)
          | (None, h2) \<Rightarrow> (True, h2))
       else (True, ?h1))"
    using assms(3-5)
    by (simp add: configure_system_def Let_def contains_1925_strip actual_def bytes_def)
  have "\<exists>h'. configure_system sp io h = (True, h') \<and> rate_adjusted_bytes h' = bytes
      \<and> SAMPLING_RATE h' = actual \<and> designed_for sp actual h'
      \<and> NUM_SENSORS h' = NUM_SENSORS h \<and> ACCUMULATION_SIZE h' = ACCUMULATION_SIZE h
      \<and> emg_processing_buffers h' = emg_processing_buffers h
      \<and> output_queue h' = output_queue h \<and> muscle_labels h' = muscle_labels h"
  proof (cases "actual = SAMPLING_RATE h")
    case True
    with assms(2) show ?thesis by (simp add: conf)
  next
    case False
    let ?g = "?h1\<lparr>SAMPLING_RATE := actual\<rparr>"
    from big have "900 < SAMPLING_RATE ?g" by simp
    from design_filters_ok [OF assms(1) this] obtain b1 a1 b2 a2 b3 a3 b4 a4 where
      d: "design_filters sp ?g =
          (None, ?g\<lparr>hp_b := b1, hp_a := a1, notch_b := b2, notch_a := a2,
                    bp_b := b3, bp_a := a3, lp_b := b4, lp_a := a4\<rparr>)"
      and c: "butter sp 2 [0.5 / (0.5 * SAMPLING_RATE ?g)] Highpass = Inr (b1, a1)"
        "iirnotch sp (60 / (0.5 * SAMPLING_RATE ?g)) 30 = Inr (b2, a2)"
        "butter sp 4 [20 / (0.5 * SAMPLING_RATE ?g), 450 / (0.5 * SAMPLING_RATE ?g)] Bandpass
            = Inr (b3, a3)"
        "butter sp 2 [10 / (0.5 * SAMPLING_RATE ?g)] Lowpass = Inr (b4, a4)"
      by blast
    let ?h' = "?g\<lparr>hp_b := b1, hp_a := a1, notch_b := b2, notch_a := a2,
                    bp_b := b3, bp_a := a3, lp_b := b4, lp_a := a4\<rparr>"
    from c have "designed_for sp actual ?h'" by (simp add: designed_for_def)
    moreover have "configure_system sp io h = (True, ?h')"
      using False by (simp only: conf d if_True prod.case option.case not_False_eq_True)
    ultimately show ?thesis by (intro exI [of _ ?h']) simp
  qed
  then obtain h' where h': "configure_system sp io h = (True, h')"
    "rate_adjusted_bytes h' = bytes" "SAMPLING_RATE h' = actual" "designed_for sp actual h'"
    and same: "NUM_SENSORS h' = NUM_SENSORS h" "ACCUMULATION_SIZE h' = ACCUMULATION_SIZE h"
      "emg_processing_buffers h' = emg_processing_buffers h"
      "output_queue h' = output_queue h" "muscle_labels h' = muscle_labels h"
    by blast
  have "designed_for sp (SAMPLING_RATE h') h'" using h'(3,4) by simp
  moreover have "if str_contains ''1925'' reply
          then rate_adjusted_bytes h' = 1664 \<and> SAMPLING_RATE h' = 1925.926
          else rate_adjusted_bytes h' = 1728 \<and> SAMPLING_RATE h' = 2000"
    unfolding h'(2,3) by (simp add: actual_def bytes_def)
  ultimately show ?thesis using h'(1) same by blast
qed

text \<open>
  Claim C5. When both commands were sent and a reply to \<open>RATE?\<close> was received, with
  designers as in \<open>sigproc_ok\<close> and a handler whose coefficients are the design for its
  rate: \<open>configure_system\<close> succeeds; if the reply contains \<open>1925\<close> the frame size is
  1664 bytes and the rate 1925.926 Hz, otherwise 1728 bytes and 2000 Hz; in both cases the
  four coefficient pairs are the design for the resulting rate.
\<close>

theorem rate_negotiation:
  assumes "sigproc_ok sp" and "designed_for sp (SAMPLING_RATE h) h"
    and "rate_command_sent io" and "rate_query_sent io" and "rate_reply io = Some reply"
  shows "\<exists>h'. configure_system sp io h = (True, h')
      \<and> (if str_contains ''1925'' reply
          then rate_adjusted_bytes h' = 1664 \<and> SAMPLING_RATE h' = 1925.926
          else rate_adjusted_bytes h' = 1728 \<and> SAMPLING_RATE h' = 2000)
      \<and> designed_for sp (SAMPLING_RATE h') h'"
  using configure_system_ok [OF assms] by blast

theorem rate_negotiation_witness:
  "sigproc_ok passthrough_sigproc
   \<and> designed_for passthrough_sigproc (SAMPLING_RATE passthrough_handler) passthrough_handler
   \<and> rate_reply alternate_reply = Some ''1925.926''
   \<and> str_contains ''1925'' ''1925.926''
   \<and> fst (configure_system passthrough_sigproc alternate_reply passthrough_handler)
   \<and> rate_adjusted_bytes (snd (configure_system passthrough_sigproc alternate_reply
         passthrough_handler)) = 1664
   \<and> SAMPLING_RATE (snd (configure_system passthrough_sigproc alternate_reply
         passthrough_handler)) = 1925.926"
proof -
  have r: "SAMPLING_RATE passthrough_handler = 2000" by (simp add: passthrough_handler_def)
  have d: "designed_for passthrough_sigproc (SAMPLING_RATE passthrough_handler) passthrough_handler"
    by (simp only: r passthrough_designed)
  have io: "rate_command_sent alternate_reply" "rate_query_sent alternate_reply"
    "rate_reply alternate_reply = Some ''1925.926''"
    by (simp_all add: alternate_reply_def)
  have c: "str_contains ''1925'' ''1925.926''"
    by (simp add: str_contains_def sublist_code)
  from rate_negotiation [OF passthrough_sigproc_ok d io] c
  have "fst (configure_system passthrough_sigproc alternate_reply passthrough_handler)
   \<and> rate_adjusted_bytes (snd (configure_system passthrough_sigproc alternate_reply
         passthrough_handler)) = 1664
   \<and> SAMPLING_RATE (snd (configure_system passthrough_sigproc alternate_reply
         passthrough_handler)) = 1925.926"
    by auto
  with passthrough_sigproc_ok d io(3) c show ?thesis by simp
qed

text \<open>
  With \<open>handler_init_wf\<close>: the constructor, for up to 16 sensors and an in-range rate,
  returns a well-formed handler, and the rate negotiation keeps it well-formed.
\<close>

lemma configure_system_wf:
  assumes "sigproc_ok sp" and "designed_for sp (SAMPLING_RATE h) h"
    and "handler_wf h" and "27 < ACCUMULATION_SIZE h"
    and "rate_command_sent io" and "rate_query_sent io" and "rate_reply io = Some reply"
  shows "\<exists>h'. configure_system sp io h = (True, h') \<and> handler_wf h'
      \<and> designed_for sp (SAMPLING_RATE h') h'
      \<and> NUM_SENSORS h' = NUM_SENSORS h \<and> ACCUMULATION_SIZE h' = ACCUMULATION_SIZE h"
proof -
  from configure_system_ok [OF assms(1,2,5,6,7)] obtain h' where
    h': "configure_system sp io h = (True, h')"
      "if str_contains ''1925'' reply
       then rate_adjusted_bytes h' = 1664 \<and> SAMPLING_RATE h' = 1925.926
       else rate_adjusted_bytes h' = 1728 \<and> SAMPLING_RATE h' = 2000"
      "designed_for sp (SAMPLING_RATE h') h'"
      "NUM_SENSORS h' = NUM_SENSORS h" "ACCUMULATION_SIZE h' = ACCUMULATION_SIZE h"
      "emg_processing_buffers h' = emg_processing_buffers h"
      "output_queue h' = output_queue h" "muscle_labels h' = muscle_labels h"
    by blast
  from h'(2) have "900 < SAMPLING_RATE h'" by (simp split: if_splits)
  from designed_filters(1,2) [OF assms(1) this h'(3)] assms(3,4)
  have "handler_wf h'" by (simp add: handler_wf_def h'(4-8))
  with h' show ?thesis by blast
qed

section \<open>An accumulation window not longer than the padding\<close>










section \<open>Overflow of the accumulation buffer\<close>

lemma frame_step:
  assumes wf: "handler_wf h" and dp: "default_profile h" and len: "length f = 432"
  shows "\<exists>h'. emg_data_thread_step h f =
            (h', concat (map (\<lambda>c. step_passes 75 c (items (emg_processing_buffers h ! c))
                                    (slice_from_step c 16 f)) [0..<16]))
          \<and> handler_wf h' \<and> default_profile h' \<and> same_setup h h'
          \<and> (\<forall>c < 16. items (emg_processing_buffers h' ! c) =
                 step_items 75 (items (emg_processing_buffers h ! c)) (slice_from_step c 16 f))"
proof -
  from dp have p: "NUM_SENSORS h = 16" "ACCUMULATION_SIZE h = 75" "rate_adjusted_bytes h = 1728"
    by (simp_all add: default_profile_def)
  from process_raw_data_eq [OF wf, of f] obtain h' where
    1: "process_raw_data h f =
            (h', concat (map (\<lambda>c. step_passes (ACCUMULATION_SIZE h) c
                                    (items (emg_processing_buffers h ! c))
                                    (slice_from_step c (NUM_SENSORS h) f)) [0..<NUM_SENSORS h]))"
       "handler_wf h'" "same_setup h h'"
       "emg_processing_buffers h' =
              map (\<lambda>c. \<lparr>maxlen = ACCUMULATION_SIZE h,
                         items = step_items (ACCUMULATION_SIZE h)
                                   (items (emg_processing_buffers h ! c))
                                   (slice_from_step c (NUM_SENSORS h) f)\<rparr>)
                [0..<NUM_SENSORS h]"
    by blast
  from same_setup_fields(1,2,3) [OF 1(3)] p have "default_profile h'"
    by (simp add: default_profile_def)
  moreover have "emg_data_thread_step h f =
            (h', concat (map (\<lambda>c. step_passes 75 c (items (emg_processing_buffers h ! c))
                                    (slice_from_step c 16 f)) [0..<16]))"
    using 1(1) len by (simp add: emg_data_thread_step_def p)
  moreover have "\<forall>c < 16. items (emg_processing_buffers h' ! c) =
                 step_items 75 (items (emg_processing_buffers h ! c)) (slice_from_step c 16 f)"
    by (simp add: 1(4) p del: upt_Suc)
  ultimately show ?thesis using 1(2,3) by blast
qed

lemma frame_slice_length: "length f = 432 \<Longrightarrow> c < 16 \<Longrightarrow> length (slice_from_step c 16 f) = 27"
  by (rule slice_from_step_length) simp_all

lemma drain_cycle:
  assumes wf: "handler_wf h" and dp: "default_profile h"
    and empty: "\<forall>c < 16. items (emg_processing_buffers h ! c) = []"
    and len: "length f1 = 432" "length f2 = 432" "length f3 = 432"
  shows "\<exists>h'. emg_data_thread h [f1, f2, f3] = (h', cycle_windows f1 f2 f3)
          \<and> handler_wf h' \<and> default_profile h' \<and> same_setup h h'
          \<and> (\<forall>c < 16. items (emg_processing_buffers h' ! c) = [])"
proof -
  let ?s = "\<lambda>c f. slice_from_step c 16 f"
  note sl = frame_slice_length
  from frame_step [OF wf dp len(1)] obtain h1 where
    1: "emg_data_thread_step h f1 =
          (h1, concat (map (\<lambda>c. step_passes 75 c (items (emg_processing_buffers h ! c)) (?s c f1))
                        [0..<16]))"
       "handler_wf h1" "default_profile h1" "same_setup h h1"
       "\<forall>c < 16. items (emg_processing_buffers h1 ! c) =
                 step_items 75 (items (emg_processing_buffers h ! c)) (?s c f1)"
    by blast
  have p1: "concat (map (\<lambda>c. step_passes 75 c (items (emg_processing_buffers h ! c)) (?s c f1))
                        [0..<16]) = concat (map (\<lambda>c. []) [0..<16])"
    by (rule arg_cong [where f = concat], rule map_cong)
      (simp_all add: empty step_passes_def sl [OF len(1)])
  have b1: "\<forall>c < 16. items (emg_processing_buffers h1 ! c) = ?s c f1"
    using 1(5) empty by (simp add: step_items_def sl [OF len(1)])
  from frame_step [OF 1(2,3) len(2)] obtain h2 where
    2: "emg_data_thread_step h1 f2 =
          (h2, concat (map (\<lambda>c. step_passes 75 c (items (emg_processing_buffers h1 ! c)) (?s c f2))
                        [0..<16]))"
       "handler_wf h2" "default_profile h2" "same_setup h1 h2"
       "\<forall>c < 16. items (emg_processing_buffers h2 ! c) =
                 step_items 75 (items (emg_processing_buffers h1 ! c)) (?s c f2)"
    by blast
  have p2: "concat (map (\<lambda>c. step_passes 75 c (items (emg_processing_buffers h1 ! c)) (?s c f2))
                        [0..<16]) = concat (map (\<lambda>c. []) [0..<16])"
    by (rule arg_cong [where f = concat], rule map_cong)
      (simp_all add: b1 step_passes_def sl [OF len(1)] sl [OF len(2)])
  have b2: "\<forall>c < 16. items (emg_processing_buffers h2 ! c) = ?s c f1 @ ?s c f2"
    using 2(5) b1 by (simp add: step_items_def sl [OF len(1)] sl [OF len(2)])
  from frame_step [OF 2(2,3) len(3)] obtain h3 where
    3: "emg_data_thread_step h2 f3 =
          (h3, concat (map (\<lambda>c. step_passes 75 c (items (emg_processing_buffers h2 ! c)) (?s c f3))
                        [0..<16]))"
       "handler_wf h3" "default_profile h3" "same_setup h2 h3"
       "\<forall>c < 16. items (emg_processing_buffers h3 ! c) =
                 step_items 75 (items (emg_processing_buffers h2 ! c)) (?s c f3)"
    by blast
  have p3: "concat (map (\<lambda>c. step_passes 75 c (items (emg_processing_buffers h2 ! c)) (?s c f3))
                        [0..<16])
      = concat (map (\<lambda>c. [(c, drop 6 (?s c f1 @ ?s c f2 @ ?s c f3))]) [0..<16])"
    by (rule arg_cong [where f = concat], rule map_cong)
      (simp_all add: b2 step_passes_def accumulated_def sl [OF len(1)] sl [OF len(2)]
        sl [OF len(3)])
  have b3: "\<forall>c < 16. items (emg_processing_buffers h3 ! c) = []"
    using 3(5) b2 by (simp add: step_items_def sl [OF len(1)] sl [OF len(2)] sl [OF len(3)])
  have c0: "concat (map (\<lambda>c. []) [0..<16]) = ([] :: filter_pass list)" by simp
  have c3: "concat (map (\<lambda>c. [(c, drop 6 (?s c f1 @ ?s c f2 @ ?s c f3))]) [0..<16])
      = cycle_windows f1 f2 f3"
    unfolding cycle_windows_def by (simp only: concat_map_singleton)
  have "emg_data_thread h [f1, f2, f3] = (h3, cycle_windows f1 f2 f3)"
    by (simp only: emg_data_thread.simps 1(1) 2(1) 3(1) p1 p2 p3 c0 c3 prod.case append_Nil
        append_Nil2)
  with 3(2,3) same_setup_trans [OF same_setup_trans [OF 1(4) 2(4)] 3(4)] b3 show ?thesis
    by blast
qed

lemma emg_data_thread_append:
  "emg_data_thread h (frames @ later) =
     (case emg_data_thread h frames of
        (h', ps) \<Rightarrow> (case emg_data_thread h' later of (h'', ps') \<Rightarrow> (h'', ps @ ps')))"
  by (induction frames arbitrary: h) (simp_all split: prod.splits)

lemma drain_cycles:
  assumes "handler_wf h" and "default_profile h"
    and "\<forall>c < 16. items (emg_processing_buffers h ! c) = []"
    and "\<forall>(f1, f2, f3) \<in> set cycles. length f1 = 432 \<and> length f2 = 432 \<and> length f3 = 432"
  shows "\<exists>h'. emg_data_thread h (concat (map (\<lambda>(f1, f2, f3). [f1, f2, f3]) cycles))
              = (h', concat (map (\<lambda>(f1, f2, f3). cycle_windows f1 f2 f3) cycles))
          \<and> handler_wf h' \<and> default_profile h'
          \<and> (\<forall>c < 16. items (emg_processing_buffers h' ! c) = [])"
  using assms
proof (induction cycles arbitrary: h)
  case Nil
  then show ?case by simp
next
  case (Cons cy cycles)
  obtain f1 f2 f3 where cy: "cy = (f1, f2, f3)" by (cases cy)
  from Cons.prems(4) cy have len: "length f1 = 432" "length f2 = 432" "length f3 = 432"
    and rest: "\<forall>(f1, f2, f3) \<in> set cycles. length f1 = 432 \<and> length f2 = 432 \<and> length f3 = 432"
    by simp_all
  from drain_cycle [OF Cons.prems(1,2,3) len] obtain h1 where
    1: "emg_data_thread h [f1, f2, f3] = (h1, cycle_windows f1 f2 f3)"
       "handler_wf h1" "default_profile h1"
       "\<forall>c < 16. items (emg_processing_buffers h1 ! c) = []"
    by blast
  from Cons.IH [OF 1(2,3,4) rest] obtain h2 where
    2: "emg_data_thread h1 (concat (map (\<lambda>(f1, f2, f3). [f1, f2, f3]) cycles))
              = (h2, concat (map (\<lambda>(f1, f2, f3). cycle_windows f1 f2 f3) cycles))"
       "handler_wf h2" "default_profile h2"
       "\<forall>c < 16. items (emg_processing_buffers h2 ! c) = []"
    by blast
  have "concat (map (\<lambda>(f1, f2, f3). [f1, f2, f3]) (cy # cycles))
      = [f1, f2, f3] @ concat (map (\<lambda>(f1, f2, f3). [f1, f2, f3]) cycles)"
    by (simp add: cy)
  then have "emg_data_thread h (concat (map (\<lambda>(f1, f2, f3). [f1, f2, f3]) (cy # cycles)))
      = (h2, cycle_windows f1 f2 f3 @ concat (map (\<lambda>(f1, f2, f3). cycle_windows f1 f2 f3) cycles))"
    by (simp only: emg_data_thread_append 1(1) 2(1) prod.case)
  with 2(2,3,4) show ?case by (simp add: cy)
qed

lemma overflow_step:
  assumes wf: "handler_wf h" and c: "c < NUM_SENSORS h"
    and over: "ACCUMULATION_SIZE h < length (items (emg_processing_buffers h ! c))
                 + length (slice_from_step c (NUM_SENSORS h) raw)"
  shows "\<exists>y h'. process_channel h raw c =
            (None, h',
             [(c, drop (length (items (emg_processing_buffers h ! c))
                          + length (slice_from_step c (NUM_SENSORS h) raw) - ACCUMULATION_SIZE h)
                    (items (emg_processing_buffers h ! c)
                       @ slice_from_step c (NUM_SENSORS h) raw))])
        \<and> length (drop (length (items (emg_processing_buffers h ! c))
                          + length (slice_from_step c (NUM_SENSORS h) raw) - ACCUMULATION_SIZE h)
                    (items (emg_processing_buffers h ! c)
                       @ slice_from_step c (NUM_SENSORS h) raw)) = ACCUMULATION_SIZE h
        \<and> process_emg_channel h
              (drop (length (items (emg_processing_buffers h ! c))
                          + length (slice_from_step c (NUM_SENSORS h) raw) - ACCUMULATION_SIZE h)
                    (items (emg_processing_buffers h ! c)
                       @ slice_from_step c (NUM_SENSORS h) raw)) = Inr y
        \<and> output_queue h' =
              drop (Suc (length (output_queue h)) - OUTPUT_QUEUE_MAXSIZE)
                (output_queue h @
                   [\<lparr>channel = c, muscle_label = muscle_labels h ! c, samples = y\<rparr>])
        \<and> items (emg_processing_buffers h' ! c) = []"
proof -
  from over have full: "ACCUMULATION_SIZE h \<le> length (items (emg_processing_buffers h ! c))
                 + length (slice_from_step c (NUM_SENSORS h) raw)"
    by simp
  note b = handler_wf_buffer [OF wf c]
  from process_channel_pass [OF wf c full] obtain y where
    y: "process_emg_channel h
               (accumulated (ACCUMULATION_SIZE h) (items (emg_processing_buffers h ! c))
                  (slice_from_step c (NUM_SENSORS h) raw)) = Inr y"
       "process_channel h raw c =
               (None,
                h\<lparr>output_queue :=
                     drop (Suc (length (output_queue h)) - OUTPUT_QUEUE_MAXSIZE)
                       (output_queue h @
                          [\<lparr>channel = c, muscle_label = muscle_labels h ! c, samples = y\<rparr>]),
                   emg_processing_buffers :=
                     (emg_processing_buffers h)
                       [c := \<lparr>maxlen = ACCUMULATION_SIZE h, items = []\<rparr>]\<rparr>,
                [(c, accumulated (ACCUMULATION_SIZE h) (items (emg_processing_buffers h ! c))
                       (slice_from_step c (NUM_SENSORS h) raw))])"
    by blast
  have len: "length (accumulated (ACCUMULATION_SIZE h) (items (emg_processing_buffers h ! c))
                  (slice_from_step c (NUM_SENSORS h) raw)) = ACCUMULATION_SIZE h"
    using full by (simp add: accumulated_length)
  let ?w = "drop (length (items (emg_processing_buffers h ! c))
                          + length (slice_from_step c (NUM_SENSORS h) raw) - ACCUMULATION_SIZE h)
                    (items (emg_processing_buffers h ! c)
                       @ slice_from_step c (NUM_SENSORS h) raw)"
  let ?q = "drop (Suc (length (output_queue h)) - OUTPUT_QUEUE_MAXSIZE)
                (output_queue h @
                   [\<lparr>channel = c, muscle_label = muscle_labels h ! c, samples = y\<rparr>])"
  let ?h' = "h\<lparr>output_queue := ?q,
                emg_processing_buffers :=
                  (emg_processing_buffers h)
                    [c := \<lparr>maxlen = ACCUMULATION_SIZE h, items = []\<rparr>]\<rparr>"
  have pc: "process_channel h raw c = (None, ?h', [(c, ?w)])"
    using y(2) by (simp only: accumulated_def)
  have pe: "process_emg_channel h ?w = Inr y" using y(1) by (simp only: accumulated_def)
  have ln: "length ?w = ACCUMULATION_SIZE h" using len by (simp only: accumulated_def)
  have q: "output_queue ?h' = ?q" by simp
  have e: "items (emg_processing_buffers ?h' ! c) = []" using b(3) by simp
  from pc ln pe q e show ?thesis by blast
qed

text \<open>
  Claim C8. For a well-formed handler. When a frame brings a channel more samples than
  its buffer has room for, \<open>k\<close> too many, the oldest \<open>k\<close> of the accumulated and the new
  samples are discarded by the extension; the filtering pass is run on the remaining
  \<open>A\<close>, the chunk put on the queue is computed from them alone, and the buffer is empty
  afterwards, so the discarded samples are in no chunk. In the default profile, from empty
  buffers, every third frame fills the buffers with 81 samples and discards 6: the passes
  of a sequence of such cycles are, cycle after cycle and channel after channel, the
  last 75 samples of the 81 the cycle brought the channel, so that between the windows of
  consecutive cycles 6 samples of the stream are missing.
\<close>

theorem overflow_discards_oldest:
  assumes "handler_wf h"
  shows "(let d = items (emg_processing_buffers h ! c);
              xs = slice_from_step c (NUM_SENSORS h) raw;
              k = length d + length xs - ACCUMULATION_SIZE h;
              w = drop k (d @ xs)
          in c < NUM_SENSORS h \<and> ACCUMULATION_SIZE h < length d + length xs \<longrightarrow>
             0 < k \<and> length w = ACCUMULATION_SIZE h \<and> d @ xs = take k (d @ xs) @ w
             \<and> (\<exists>y h'. process_channel h raw c = (None, h', [(c, w)])
                   \<and> process_emg_channel h w = Inr y
                   \<and> output_queue h' =
                         drop (Suc (length (output_queue h)) - OUTPUT_QUEUE_MAXSIZE)
                           (output_queue h @
                              [\<lparr>channel = c, muscle_label = muscle_labels h ! c,
                                samples = y\<rparr>])
                   \<and> items (emg_processing_buffers h' ! c) = []))
    \<and> (default_profile h \<and> (\<forall>c < 16. items (emg_processing_buffers h ! c) = [])
        \<and> (\<forall>(f1, f2, f3) \<in> set cycles.
               length f1 = 432 \<and> length f2 = 432 \<and> length f3 = 432) \<longrightarrow>
         snd (emg_data_thread h (concat (map (\<lambda>(f1, f2, f3). [f1, f2, f3]) cycles)))
           = concat (map (\<lambda>(f1, f2, f3). cycle_windows f1 f2 f3) cycles)
         \<and> (\<forall>c < 16. items (emg_processing_buffers
               (fst (emg_data_thread h (concat (map (\<lambda>(f1, f2, f3). [f1, f2, f3]) cycles))))
                 ! c) = []))"
proof (intro conjI)
  let ?d = "items (emg_processing_buffers h ! c)"
  let ?xs = "slice_from_step c (NUM_SENSORS h) raw"
  let ?k = "length ?d + length ?xs - ACCUMULATION_SIZE h"
  let ?w = "drop ?k (?d @ ?xs)"
  have "0 < ?k \<and> length ?w = ACCUMULATION_SIZE h \<and> ?d @ ?xs = take ?k (?d @ ?xs) @ ?w
             \<and> (\<exists>y h'. process_channel h raw c = (None, h', [(c, ?w)])
                   \<and> process_emg_channel h ?w = Inr y
                   \<and> output_queue h' =
                         drop (Suc (length (output_queue h)) - OUTPUT_QUEUE_MAXSIZE)
                           (output_queue h @
                              [\<lparr>channel = c, muscle_label = muscle_labels h ! c,
                                samples = y\<rparr>])
                   \<and> items (emg_processing_buffers h' ! c) = [])"
    if "c < NUM_SENSORS h" "ACCUMULATION_SIZE h < length ?d + length ?xs"
  proof -
    from overflow_step [OF assms that] obtain y h' where
      "process_channel h raw c = (None, h', [(c, ?w)])" "length ?w = ACCUMULATION_SIZE h"
      "process_emg_channel h ?w = Inr y"
      "output_queue h' =
         drop (Suc (length (output_queue h)) - OUTPUT_QUEUE_MAXSIZE)
           (output_queue h @ [\<lparr>channel = c, muscle_label = muscle_labels h ! c, samples = y\<rparr>])"
      "items (emg_processing_buffers h' ! c) = []"
      by blast
    moreover from that(2) have "0 < ?k" by simp
    moreover have "?d @ ?xs = take ?k (?d @ ?xs) @ ?w" by (simp only: append_take_drop_id)
    ultimately show ?thesis by blast
  qed
  then show "let d = ?d; xs = ?xs; k = length d + length xs - ACCUMULATION_SIZE h;
              w = drop k (d @ xs)
          in c < NUM_SENSORS h \<and> ACCUMULATION_SIZE h < length d + length xs \<longrightarrow>
             0 < k \<and> length w = ACCUMULATION_SIZE h \<and> d @ xs = take k (d @ xs) @ w
             \<and> (\<exists>y h'. process_channel h raw c = (None, h', [(c, w)])
                   \<and> process_emg_channel h w = Inr y
                   \<and> output_queue h' =
                         drop (Suc (length (output_queue h)) - OUTPUT_QUEUE_MAXSIZE)
                           (output_queue h @
                              [\<lparr>channel = c, muscle_label = muscle_labels h ! c,
                                samples = y\<rparr>])
                   \<and> items (emg_processing_buffers h' ! c) = [])"
    unfolding Let_def by blast
next
  show "default_profile h \<and> (\<forall>c < 16. items (emg_processing_buffers h ! c) = [])
        \<and> (\<forall>(f1, f2, f3) \<in> set cycles.
               length f1 = 432 \<and> length f2 = 432 \<and> length f3 = 432) \<longrightarrow>
         snd (emg_data_thread h (concat (map (\<lambda>(f1, f2, f3). [f1, f2, f3]) cycles)))
           = concat (map (\<lambda>(f1, f2, f3). cycle_windows f1 f2 f3) cycles)
         \<and> (\<forall>c < 16. items (emg_processing_buffers
               (fst (emg_data_thread h (concat (map (\<lambda>(f1, f2, f3). [f1, f2, f3]) cycles))))
                 ! c) = [])"
  proof
    assume a: "default_profile h \<and> (\<forall>c < 16. items (emg_processing_buffers h ! c) = [])
        \<and> (\<forall>(f1, f2, f3) \<in> set cycles.
               length f1 = 432 \<and> length f2 = 432 \<and> length f3 = 432)"
    then have a1: "default_profile h" and a2: "\<forall>c < 16. items (emg_processing_buffers h ! c) = []"
      and a3: "\<forall>(f1, f2, f3) \<in> set cycles.
               length f1 = 432 \<and> length f2 = 432 \<and> length f3 = 432"
      by blast+
    from drain_cycles [OF assms a1 a2 a3] obtain h' where
      "emg_data_thread h (concat (map (\<lambda>(f1, f2, f3). [f1, f2, f3]) cycles))
              = (h', concat (map (\<lambda>(f1, f2, f3). cycle_windows f1 f2 f3) cycles))"
      "\<forall>c < 16. items (emg_processing_buffers h' ! c) = []"
      by blast
    then show "snd (emg_data_thread h (concat (map (\<lambda>(f1, f2, f3). [f1, f2, f3]) cycles)))
           = concat (map (\<lambda>(f1, f2, f3). cycle_windows f1 f2 f3) cycles)
         \<and> (\<forall>c < 16. items (emg_processing_buffers
               (fst (emg_data_thread h (concat (map (\<lambda>(f1, f2, f3). [f1, f2, f3]) cycles))))
                 ! c) = [])"
      by simp
  qed
qed

theorem overflow_discards_oldest_witness:
  "handler_wf nearly_full_handler \<and> 0 < NUM_SENSORS nearly_full_handler
   \<and> ACCUMULATION_SIZE nearly_full_handler
       < length (items (emg_processing_buffers nearly_full_handler ! 0))
         + length (slice_from_step 0 (NUM_SENSORS nearly_full_handler) ramp_frame)
   \<and> snd (snd (process_channel nearly_full_handler ramp_frame 0))
       = [(0, drop 6 (replicate 54 1 @ slice_from_step 0 16 ramp_frame))]
   \<and> handler_wf passthrough_handler \<and> default_profile passthrough_handler
   \<and> snd (emg_data_thread passthrough_handler [ramp_frame, ramp_frame, ramp_frame])
       = cycle_windows ramp_frame ramp_frame ramp_frame"
proof -
  have n: "0 < NUM_SENSORS nearly_full_handler"
    by (simp add: nearly_full_handler_def passthrough_handler_def)
  have a: "ACCUMULATION_SIZE nearly_full_handler = 75"
    "NUM_SENSORS nearly_full_handler = 16"
    "items (emg_processing_buffers nearly_full_handler ! 0) = replicate 54 1"
    by (simp_all add: nearly_full_handler_def passthrough_handler_def)
  have over: "ACCUMULATION_SIZE nearly_full_handler
       < length (items (emg_processing_buffers nearly_full_handler ! 0))
         + length (slice_from_step 0 (NUM_SENSORS nearly_full_handler) ramp_frame)"
    by (simp add: a ramp_frame_slice)
  have k: "length (items (emg_processing_buffers nearly_full_handler ! 0))
         + length (slice_from_step 0 (NUM_SENSORS nearly_full_handler) ramp_frame)
         - ACCUMULATION_SIZE nearly_full_handler = 6"
    by (simp add: a ramp_frame_slice)
  from overflow_discards_oldest [OF nearly_full_handler_wf, of 0 ramp_frame, unfolded Let_def]
    n over
  obtain h' where "process_channel nearly_full_handler ramp_frame 0 =
      (None, h',
       [(0, drop (length (items (emg_processing_buffers nearly_full_handler ! 0))
                  + length (slice_from_step 0 (NUM_SENSORS nearly_full_handler) ramp_frame)
                  - ACCUMULATION_SIZE nearly_full_handler)
              (items (emg_processing_buffers nearly_full_handler ! 0)
                 @ slice_from_step 0 (NUM_SENSORS nearly_full_handler) ramp_frame))])"
    by blast
  then have first: "snd (snd (process_channel nearly_full_handler ramp_frame 0))
       = [(0, drop 6 (replicate 54 1 @ slice_from_step 0 16 ramp_frame))]"
    by (simp only: k snd_conv) (simp only: a)
  have dp: "default_profile passthrough_handler"
    by (simp add: default_profile_def passthrough_handler_def)
  have em: "\<forall>c < 16. items (emg_processing_buffers passthrough_handler ! c) = []"
    by (simp add: passthrough_handler_def)
  have fr: "\<forall>(f1, f2, f3) \<in> set [(ramp_frame, ramp_frame, ramp_frame)].
      length f1 = 432 \<and> length f2 = 432 \<and> length f3 = 432"
    by (simp add: ramp_frame_def)
  from overflow_discards_oldest [OF passthrough_handler_wf,
      of _ _ "[(ramp_frame, ramp_frame, ramp_frame)]"] dp em fr
  have second: "snd (emg_data_thread passthrough_handler [ramp_frame, ramp_frame, ramp_frame])
       = cycle_windows ramp_frame ramp_frame ramp_frame"
    by simp
  from nearly_full_handler_wf n over first passthrough_handler_wf dp second show ?thesis
    by blast
qed

end
